theory Spec2Isabelle
  imports Main "HOL-Library.Sublist"
begin

section \<open>Chunk registry (src/utils/chunkStore.js)\<close>

text \<open>
  The registry is one module-level \<^verbatim>\<open>Map\<close> from project id to
  \<^verbatim>\<open>{ key, chunks: Map(chunkId => chunkMeta) }\<close>. Text is modelled as \<^typ>\<open>string\<close>.
  The chunk metadata is the object literal built in the mask handler of src/index.js
  (\<^verbatim>\<open>{type, name, params, body, original}\<close>); \<^verbatim>\<open>name\<close> is \<^verbatim>\<open>null\<close> for
  unclassified chunks, hence an option. The four fields that the classifier's result, the
  scanner's chunk entries and the stored metadata have in common form the base record.
\<close>

record snippet =
  name :: "string option"
  params :: string
  body :: string
  original :: string

record chunk = snippet +
  type :: string

record project =
  key :: string
  chunks :: "string \<rightharpoonup> chunk"

type_synonym store = "string \<rightharpoonup> project"

datatype error = Error string

definition createProject :: "string \<Rightarrow> string \<Rightarrow> store \<Rightarrow> store" where
  "createProject projectId k store = store(projectId \<mapsto> \<lparr>key = k, chunks = Map.empty\<rparr>)"

definition putChunk :: "string \<Rightarrow> string \<Rightarrow> chunk \<Rightarrow> store \<Rightarrow> error + store" where
  "putChunk projectId chunkId chunkMeta store =
     (case store projectId of
        None \<Rightarrow> Inl (Error ''Project not found'')
      | Some proj \<Rightarrow>
          Inr (store(projectId \<mapsto> proj\<lparr>chunks := (chunks proj)(chunkId \<mapsto> chunkMeta)\<rparr>)))"

definition getProject :: "string \<Rightarrow> store \<Rightarrow> project option" where
  "getProject projectId store = store projectId"

definition getChunk :: "string \<Rightarrow> string \<Rightarrow> store \<Rightarrow> chunk option" where
  "getChunk projectId chunkId store =
     (case store projectId of
        None \<Rightarrow> None
      | Some proj \<Rightarrow> chunks proj chunkId)"

text \<open>
  A sequence of registry calls. A \<^verbatim>\<open>putChunk\<close> that throws has not touched the
  store (the throw precedes the mutation), and the two getters do not mutate.
\<close>

datatype registry_op =
    CreateProject string string
  | PutChunk string string chunk
  | GetProject string
  | GetChunk string string

fun apply_op :: "store \<Rightarrow> registry_op \<Rightarrow> store" where
  "apply_op store (CreateProject projectId k) = createProject projectId k store"
| "apply_op store (PutChunk projectId chunkId chunkMeta) =
     (case putChunk projectId chunkId chunkMeta store of
        Inl e \<Rightarrow> store
      | Inr store' \<Rightarrow> store')"
| "apply_op store (GetProject projectId) = store"
| "apply_op store (GetChunk projectId chunkId) = store"

definition run_ops :: "registry_op list \<Rightarrow> store \<Rightarrow> store" where
  "run_ops ops store = foldl apply_op store ops"

text \<open>
  An operation writes a fresh slot when it creates a project id that is not yet mapped,
  or puts a chunk id that is not yet mapped in its project.
\<close>

fun fresh_op :: "store \<Rightarrow> registry_op \<Rightarrow> bool" where
  "fresh_op store (CreateProject projectId k) = (store projectId = None)"
| "fresh_op store (PutChunk projectId chunkId chunkMeta) =
     (getChunk projectId chunkId store = None)"
| "fresh_op store (GetProject projectId) = True"
| "fresh_op store (GetChunk projectId chunkId) = True"

fun fresh_ops :: "registry_op list \<Rightarrow> store \<Rightarrow> bool" where
  "fresh_ops [] store = True"
| "fresh_ops (x # xs) store = (fresh_op store x \<and> fresh_ops xs (apply_op store x))"

section \<open>Fetch handler (src/index.js, GET /api/fetch/:projectId/:chunkId)\<close>

text \<open>
  \<^verbatim>\<open>req.query.key\<close> is absent, a string, or (for \<^verbatim>\<open>?key[]=..\<close>) a structured
  value; only a string can be \<^verbatim>\<open>===\<close> to the stored key.
\<close>

datatype query_value = Absent | Str string | Structured

datatype jvalue = JBool bool | JString string | JNull

record response =
  status :: nat
  json :: "(string \<times> jvalue) list"

definition strict_neq :: "query_value \<Rightarrow> string \<Rightarrow> bool" where
  "strict_neq q k = (case q of Str s \<Rightarrow> s \<noteq> k | _ \<Rightarrow> True)"

definition name_json :: "string option \<Rightarrow> jvalue" where
  "name_json n = (case n of None \<Rightarrow> JNull | Some s \<Rightarrow> JString s)"

definition api_fetch :: "string \<Rightarrow> string \<Rightarrow> query_value \<Rightarrow> store \<Rightarrow> response" where
  "api_fetch projectId chunkId qkey store =
     (case getProject projectId store of
        None \<Rightarrow> \<lparr>status = 404, json = [(''error'', JString ''Project not found'')]\<rparr>
      | Some proj \<Rightarrow>
          if strict_neq qkey (key proj)
          then \<lparr>status = 403, json = [(''error'', JString ''Invalid key'')]\<rparr>
          else
            (case getChunk projectId chunkId store of
               None \<Rightarrow> \<lparr>status = 404, json = [(''error'', JString ''Chunk not found'')]\<rparr>
             | Some c \<Rightarrow>
                 if type c = ''decl'' \<or> type c = ''arrow''
                 then \<lparr>status = 200,
                       json = [(''ok'', JBool True), (''kind'', JString ''function''),
                               (''name'', name_json (name c)),
                               (''code'', JString (''('' @ params c @ '') => { '' @ body c @ '' }''))]\<rparr>
                 else \<lparr>status = 200,
                       json = [(''ok'', JBool True), (''kind'', JString ''raw''),
                               (''code'', JString (original c))]\<rparr>))"

section \<open>Regular expressions of the classifier (src/utils/parser.js)\<close>

text \<open>
  \<^verbatim>\<open>analyze\<close> classifies with three JavaScript regular expressions. They are kept as
  data and run by a backtracking matcher that lists every way a pattern can match, in the
  engine's order of preference (a greedy quantifier tries one more iteration first, a lazy
  one tries to stop first); the engine's answer is the head of that list. A matcher state
  is the number of code units consumed, the remaining input and the captures so far.
  An iteration of a quantified atom that consumes nothing is rejected, as the engine does.
  Text is a list of code units below 256; on that range \<^verbatim>\<open>\s\<close> and \<^verbatim>\<open>trim()\<close>
  agree on TAB, LF, VT, FF, CR, SPACE and NBSP.
\<close>

datatype cclass = Ch char | Rng char char | Whitespace | NonWhitespace

datatype re =
    Cls "cclass list"
  | Eps
  | Bol
  | Eol
  | Seq re re
  | Alt re re
  | Opt re
  | Star re
  | LazyStar re
  | Group nat re

definition is_space :: "char \<Rightarrow> bool" where
  "is_space x = (of_char x \<in> {9, 10, 11, 12, 13, 32, 160 :: nat})"

fun in_cclass :: "char \<Rightarrow> cclass \<Rightarrow> bool" where
  "in_cclass x (Ch y) = (x = y)"
| "in_cclass x (Rng lo hi) = ((of_char lo :: nat) \<le> of_char x \<and> (of_char x :: nat) \<le> of_char hi)"
| "in_cclass x Whitespace = is_space x"
| "in_cclass x NonWhitespace = (\<not> is_space x)"

type_synonym caps = "(nat \<times> string) list"
type_synonym mstate = "nat \<times> string \<times> caps"

function ms :: "re \<Rightarrow> mstate \<Rightarrow> mstate list" where
  "ms (Cls cs) (n, s, c) =
     (case s of
        [] \<Rightarrow> []
      | x # xs \<Rightarrow> if list_ex (in_cclass x) cs then [(Suc n, xs, c)] else [])"
| "ms Eps st = [st]"
| "ms Bol (n, s, c) = (if n = 0 then [(n, s, c)] else [])"
| "ms Eol (n, s, c) = (if s = [] then [(n, s, c)] else [])"
| "ms (Seq a b) st = concat (map (ms b) (ms a st))"
| "ms (Alt a b) st = ms a st @ ms b st"
| "ms (Opt a) (n, s, c) =
     filter (\<lambda>st'. length (fst (snd st')) < length s) (ms a (n, s, c)) @ [(n, s, c)]"
| "ms (Star a) (n, s, c) =
     concat (map (\<lambda>st'. if length (fst (snd st')) < length s then ms (Star a) st' else [])
                 (ms a (n, s, c))) @ [(n, s, c)]"
| "ms (LazyStar a) (n, s, c) =
     (n, s, c) #
     concat (map (\<lambda>st'. if length (fst (snd st')) < length s then ms (LazyStar a) st' else [])
                 (ms a (n, s, c)))"
| "ms (Group k a) (n, s, c) =
     map (\<lambda>(n', s', c'). (n', s', (k, take (n' - n) s) # c')) (ms a (n, s, c))"
  by pat_completeness auto
termination
  by (relation "inv_image (measure size <*lex*> measure length) (\<lambda>(r, n, s, c). (r, s))") auto

definition lit :: "string \<Rightarrow> re" where
  "lit s = foldr (\<lambda>x r. Seq (Cls [Ch x]) r) s Eps"

definition seqs :: "re list \<Rightarrow> re" where
  "seqs rs = foldr Seq rs Eps"

definition Plus :: "re \<Rightarrow> re" where
  "Plus a = Seq a (Star a)"

definition LazyPlus :: "re \<Rightarrow> re" where
  "LazyPlus a = Seq a (LazyStar a)"

text \<open>
  \<^verbatim>\<open>String.prototype.match\<close> with a pattern that begins with \<^verbatim>\<open>^\<close> and has no
  flags: only an attempt at position 0 can succeed. The result is the capture table of
  the preferred match, or nothing.
\<close>

definition re_match :: "re \<Rightarrow> string \<Rightarrow> caps option" where
  "re_match r s = (case ms r (0, s, []) of [] \<Rightarrow> None | (n, s', c) # _ \<Rightarrow> Some c)"

text \<open>
  The groups that take part in every match of a pattern, and the groups a matcher state
  has bound.
\<close>

fun binds :: "re \<Rightarrow> nat set" where
  "binds (Seq a b) = binds a \<union> binds b"
| "binds (Alt a b) = binds a \<inter> binds b"
| "binds (Group k a) = insert k (binds a)"
| "binds r = {}"

definition bound :: "mstate \<Rightarrow> nat set" where
  "bound st = fst ` set (snd (snd st))"

definition ws :: re where
  "ws = Cls [Whitespace]"

definition anyc :: re where
  "anyc = Cls [Whitespace, NonWhitespace]"

definition ident :: re where
  "ident = Cls [Rng CHR ''A'' CHR ''Z'', Rng CHR ''a'' CHR ''z'', Rng CHR ''0'' CHR ''9'',
                Ch CHR ''_'', Ch CHR ''$'']"

text \<open>\<^verbatim>\<open>/^(?:async\s+)?function\s+([A-Za-z0-9_$]+)\s*\(([\s\S]*?)\)\s*\{([\s\S]*?)\}\s*$/\<close>\<close>

definition decl_re :: re where
  "decl_re = seqs [Bol, Opt (Seq (lit ''async'') (Plus ws)), lit ''function'', Plus ws,
     Group 1 (Plus ident), Star ws, lit ''('', Group 2 (LazyStar anyc), lit '')'', Star ws,
     lit ''{'', Group 3 (LazyStar anyc), lit ''}'', Star ws, Eol]"

text \<open>\<^verbatim>\<open>/^(?:const|let)\s+([A-Za-z0-9_$]+)\s*=\s*(?:async\s*)?\(?([\s\S]*?)\)?\s*=>\s*\{([\s\S]*?)\}\s*;?\s*$/\<close>\<close>

definition arrow_re :: re where
  "arrow_re = seqs [Bol, Alt (lit ''const'') (lit ''let''), Plus ws, Group 1 (Plus ident),
     Star ws, lit ''='', Star ws, Opt (Seq (lit ''async'') (Star ws)), Opt (lit ''(''),
     Group 2 (LazyStar anyc), Opt (lit '')''), Star ws, lit ''=>'', Star ws, lit ''{'',
     Group 3 (LazyStar anyc), lit ''}'', Star ws, Opt (lit '';''), Star ws, Eol]"

text \<open>\<^verbatim>\<open>/^(?:const|let)\s+([A-Za-z0-9_$]+)\s*=\s*([\s\S]+?);?\s*$/\<close>\<close>

definition constant_re :: re where
  "constant_re = seqs [Bol, Alt (lit ''const'') (lit ''let''), Plus ws, Group 1 (Plus ident),
     Star ws, lit ''='', Star ws, Group 2 (LazyPlus anyc), Opt (lit '';''), Star ws, Eol]"

section \<open>Snippet classifier (src/utils/parser.js, analyze)\<close>

definition js_trim :: "string \<Rightarrow> string" where
  "js_trim s = rev (dropWhile is_space (rev (dropWhile is_space s)))"

text \<open>
  \<^verbatim>\<open>m[k]\<close> of a match result is the text of group \<open>k\<close>, or \<^verbatim>\<open>undefined\<close> when the
  group took no part. \<^verbatim>\<open>m[1].trim()\<close> throws a TypeError on \<^verbatim>\<open>undefined\<close>;
  \<^verbatim>\<open>(m[2] || "").trim()\<close> does not.
\<close>

definition group :: "caps \<Rightarrow> nat \<Rightarrow> string option" where
  "group m k = map_of m k"

definition trim_group :: "caps \<Rightarrow> nat \<Rightarrow> error + string" where
  "trim_group m k =
     (case group m k of
        None \<Rightarrow> Inl (Error ''TypeError'')
      | Some t \<Rightarrow> Inr (js_trim t))"

definition trim_group_or_empty :: "caps \<Rightarrow> nat \<Rightarrow> string" where
  "trim_group_or_empty m k =
     (case group m k of
        None \<Rightarrow> js_trim []
      | Some t \<Rightarrow> js_trim (if t = [] then [] else t))"

record info = snippet +
  kind :: string

definition analyze :: "string \<Rightarrow> error + info" where
  "analyze snip =
     (let trimmed = js_trim snip in
      case re_match decl_re trimmed of
        Some decl \<Rightarrow>
          (case trim_group decl 1 of
             Inl e \<Rightarrow> Inl e
           | Inr n \<Rightarrow>
               Inr \<lparr>name = Some n, params = trim_group_or_empty decl 2,
                    body = trim_group_or_empty decl 3, original = trimmed, kind = ''decl''\<rparr>)
      | None \<Rightarrow>
          (case re_match arrow_re trimmed of
             Some arrow \<Rightarrow>
               (case trim_group arrow 1 of
                  Inl e \<Rightarrow> Inl e
                | Inr n \<Rightarrow>
                    Inr \<lparr>name = Some n, params = trim_group_or_empty arrow 2,
                         body = trim_group_or_empty arrow 3, original = trimmed,
                         kind = ''arrow''\<rparr>)
           | None \<Rightarrow>
               (case re_match constant_re trimmed of
                  Some constant \<Rightarrow>
                    (case trim_group constant 1 of
                       Inl e \<Rightarrow> Inl e
                     | Inr n \<Rightarrow>
                         Inr \<lparr>name = Some n, params = [], body = [], original = trimmed,
                              kind = ''constant''\<rparr>)
                | None \<Rightarrow>
                    Inr \<lparr>name = None, params = [], body = [], original = trimmed,
                         kind = ''unknown''\<rparr>)))"

section \<open>Marker scanner and stub generator (src/utils/parser.js, transformFile)\<close>

definition CM_START :: string where
  "CM_START = ''/* CODEMASK_START */''"

definition CM_END :: string where
  "CM_END = ''/* CODEMASK_END */''"

text \<open>
  \<^verbatim>\<open>s.indexOf(pat, position)\<close>: the least index at or after \<open>position\<close> where
  \<open>pat\<close> occurs in \<open>s\<close>, or nothing (\<^verbatim>\<open>-1\<close>). \<^verbatim>\<open>s.includes(pat)\<close> is
  \<^verbatim>\<open>s.indexOf(pat, 0) !== -1\<close>. \<^verbatim>\<open>s.slice(a, b)\<close> with indices that are not
  negative is empty when \<open>b \<le> a\<close>, and \<^verbatim>\<open>s.slice(a)\<close> runs to the end.
\<close>

primrec first_at :: "string \<Rightarrow> string \<Rightarrow> nat \<Rightarrow> nat option" where
  "first_at pat [] i = (if pat = [] then Some i else None)"
| "first_at pat (x # xs) i = (if prefix pat (x # xs) then Some i else first_at pat xs (Suc i))"

definition indexOf :: "string \<Rightarrow> string \<Rightarrow> nat \<Rightarrow> nat option" where
  "indexOf s pat position = first_at pat (drop position s) (min position (length s))"

definition includes_str :: "string \<Rightarrow> string \<Rightarrow> bool" where
  "includes_str s pat = (indexOf s pat 0 \<noteq> None)"

definition slice :: "string \<Rightarrow> nat \<Rightarrow> nat \<Rightarrow> string" where
  "slice s a b = take (b - a) (drop a s)"

definition slice_from :: "string \<Rightarrow> nat \<Rightarrow> string" where
  "slice_from s a = drop a s"

text \<open>A pattern occurs in a text at an index.\<close>

definition occurs_at :: "string \<Rightarrow> string \<Rightarrow> nat \<Rightarrow> bool" where
  "occurs_at pat s k = prefix pat (drop k s)"

text \<open>
  A template literal prints \<^verbatim>\<open>null\<close> for a null name. The four stub texts follow,
  line for line.
\<close>

definition template_name :: "string option \<Rightarrow> string" where
  "template_name n = (case n of None \<Rightarrow> ''null'' | Some t \<Rightarrow> t)"

definition stub_decl :: "string \<Rightarrow> info \<Rightarrow> string" where
  \<open>stub_decl chunkId i =
     ''/* CODEMASKED:'' @ chunkId @ '' */\<newline>''
     @ ''async function '' @ template_name (name i) @ ''('' @ params i @ '') {\<newline>''
     @ ''  const fn = await window.CodeMask.load("'' @ chunkId @ ''");\<newline>''
     @ ''  return fn.apply(this, ['' @ params i @ '']);\<newline>''
     @ ''}\<newline>''
     @ ''/* END_CODEMASKED */\<newline>''\<close>

definition stub_arrow :: "string \<Rightarrow> info \<Rightarrow> string" where
  \<open>stub_arrow chunkId i =
     ''/* CODEMASKED:'' @ chunkId @ '' */\<newline>''
     @ ''const '' @ template_name (name i) @ '' = async ('' @ params i @ '') => {\<newline>''
     @ ''  const fn = await window.CodeMask.load("'' @ chunkId @ ''");\<newline>''
     @ ''  return fn('' @ params i @ '');\<newline>''
     @ ''};\<newline>''
     @ ''/* END_CODEMASKED */\<newline>''\<close>

definition stub_constant :: "string \<Rightarrow> info \<Rightarrow> string" where
  \<open>stub_constant chunkId i =
     ''/* CODEMASKED:'' @ chunkId @ '' */\<newline>''
     @ ''(function(){\<newline>''
     @ ''  // Load & execute the raw constant snippet so it defines '' @ template_name (name i)
     @ ''\<newline>''
     @ ''  var p = window.CodeMask && window.CodeMask.load\<newline>''
     @ ''    ? window.CodeMask.load("'' @ chunkId @ ''")\<newline>''
     @ ''    : Promise.reject(new Error("CodeMask SDK not initialized before constants load"));\<newline>''
     @ ''\<newline>''
     @ ''  p.then(function(fn){\<newline>''
     @ ''    // SDK returns a function for 'raw' kind; call it to execute the snippet\<newline>''
     @ ''    try { if (typeof fn === "function") fn(); } catch(e){ console.error("CodeMask constant exec error (''
     @ chunkId @ '')", e); }\<newline>''
     @ ''  }).catch(function(err){\<newline>''
     @ ''    console.error("CodeMask constant load failed ('' @ chunkId @ '')", err);\<newline>''
     @ ''  });\<newline>''
     @ ''})();\<newline>''
     @ ''/* END_CODEMASKED */\<newline>''\<close>

definition stub_unknown :: "string \<Rightarrow> info \<Rightarrow> string" where
  \<open>stub_unknown chunkId i =
     ''/* CODEMASKED:'' @ chunkId @ '' */\<newline>''
     @ ''(function(){\<newline>''
     @ ''  var p = window.CodeMask && window.CodeMask.load\<newline>''
     @ ''    ? window.CodeMask.load("'' @ chunkId @ ''")\<newline>''
     @ ''    : Promise.reject(new Error("CodeMask SDK not initialized before unknown block load"));\<newline>''
     @ ''\<newline>''
     @ ''  p.then(function(fn){\<newline>''
     @ ''    try { if (typeof fn === "function") fn(); } catch(e){ console.error("CodeMask unknown exec error (''
     @ chunkId @ '')", e); }\<newline>''
     @ ''  }).catch(function(err){\<newline>''
     @ ''    console.error("CodeMask unknown load failed ('' @ chunkId @ '')", err);\<newline>''
     @ ''  });\<newline>''
     @ ''})();\<newline>''
     @ ''/* END_CODEMASKED */\<newline>''\<close>

record file_chunk = chunk +
  chunkId :: string

text \<open>
  One pass of the \<^verbatim>\<open>if / else if\<close> chain on \<^verbatim>\<open>info.kind\<close>: the stub text and the
  chunk entry pushed for it.
\<close>

definition stub_for :: "string \<Rightarrow> info \<Rightarrow> string" where
  "stub_for cid i =
     (if kind i = ''decl'' then stub_decl cid i
      else if kind i = ''arrow'' then stub_arrow cid i
      else if kind i = ''constant'' then stub_constant cid i
      else stub_unknown cid i)"

definition chunk_for :: "string \<Rightarrow> info \<Rightarrow> file_chunk" where
  "chunk_for cid i =
     (if kind i = ''decl'' then
        \<lparr>name = name i, params = params i, body = body i, original = original i,
         type = ''decl'', chunkId = cid\<rparr>
      else if kind i = ''arrow'' then
        \<lparr>name = name i, params = params i, body = body i, original = original i,
         type = ''arrow'', chunkId = cid\<rparr>
      else if kind i = ''constant'' then
        \<lparr>name = name i, params = [], body = [], original = original i,
         type = ''constant'', chunkId = cid\<rparr>
      else
        \<lparr>name = None, params = [], body = [], original = original i,
         type = ''raw'', chunkId = cid\<rparr>)"

text \<open>
  The \<^verbatim>\<open>while (idx < content.length)\<close> loop. \<^verbatim>\<open>nanoid(8)\<close> is random: \<open>ids k\<close>
  stands for what its \<open>k\<close>-th call returns, and the loop threads the call count.
\<close>

function scan ::
  "(nat \<Rightarrow> string) \<Rightarrow> string \<Rightarrow> nat \<Rightarrow> string \<Rightarrow> file_chunk list \<Rightarrow> nat
     \<Rightarrow> error + (string \<times> file_chunk list)" where
  "scan ids content idx out cs k =
     (if idx < length content then
        (case indexOf content CM_START idx of
           None \<Rightarrow> Inr (out @ slice_from content idx, cs)
         | Some start \<Rightarrow>
             (case indexOf content CM_END start of
                None \<Rightarrow> Inr ((out @ slice content idx start) @ slice_from content start, cs)
              | Some end \<Rightarrow>
                  (case analyze (js_trim (slice content (start + length CM_START) end)) of
                     Inl e \<Rightarrow> Inl e
                   | Inr i \<Rightarrow>
                       scan ids content (end + length CM_END)
                         ((out @ slice content idx start) @ stub_for (''chunk_'' @ ids k) i)
                         (cs @ [chunk_for (''chunk_'' @ ids k) i]) (Suc k))))
      else Inr (out, cs))"
  by pat_completeness auto
termination
proof (relation "measure (\<lambda>(ids, content, idx, out, cs, k). length content - idx)")
  show "wf (measure (\<lambda>(ids, content, idx, out, cs, k). length content - idx))"
    by simp
next
  fix ids :: "nat \<Rightarrow> string" and content :: string and idx :: nat and out :: string
    and cs :: "file_chunk list" and k :: nat and start :: nat and "end" :: nat and i :: info
  assume "idx < length content"
    and "indexOf content CM_START idx = Some start"
    and "indexOf content CM_END start = Some end"
  have ge: "i0 \<le> j" if "first_at pat s i0 = Some j" for pat s i0 j
    using that
  proof (induction s arbitrary: i0)
    case Nil
    then show ?case by (simp split: if_splits)
  next
    case (Cons x xs)
    show ?case
    proof (cases "prefix pat (x # xs)")
      case True
      with Cons.prems show ?thesis by simp
    next
      case False
      with Cons.prems have "first_at pat xs (Suc i0) = Some j" by simp
      from Cons.IH [OF this] show ?thesis by simp
    qed
  qed
  from \<open>idx < length content\<close> \<open>indexOf content CM_START idx = Some start\<close>
  have "idx \<le> start"
    using ge [of CM_START "drop idx content" "min idx (length content)" start]
    by (simp add: indexOf_def)
  moreover have "min start (length content) \<le> end"
    using ge [of CM_END "drop start content" "min start (length content)" "end"]
      \<open>indexOf content CM_END start = Some end\<close>
    by (simp add: indexOf_def)
  moreover have "length CM_END = 18"
    by (simp add: CM_END_def)
  ultimately show "((ids, content, end + length CM_END,
        (out @ slice content idx start) @ stub_for (''chunk_'' @ ids k) i,
        cs @ [chunk_for (''chunk_'' @ ids k) i], Suc k),
       ids, content, idx, out, cs, k)
      \<in> measure (\<lambda>(ids, content, idx, out, cs, k). length content - idx)"
    using \<open>idx < length content\<close> by (simp add: min_def split: if_splits)
qed

definition transformFile ::
  "(nat \<Rightarrow> string) \<Rightarrow> string \<Rightarrow> string \<Rightarrow> error + (string \<times> file_chunk list)" where
  "transformFile ids relativePath content =
     (if \<not> includes_str content CM_START then Inr (content, [])
      else scan ids content 0 [] [] 0)"

declare scan.simps [simp del]

text \<open>One run of the id generator, for evaluating the scanner on concrete files.\<close>

definition sample_ids :: "nat \<Rightarrow> string" where
  "sample_ids k = take 8 (replicate k CHR ''A'' @ ''00000000'')"

section \<open>Client loader (the SDK text served by src/index.js)\<close>

text \<open>
  The SDK closure holds \<^verbatim>\<open>state\<close> (base URL, project id, key, cache),
  \<^verbatim>\<open>initialized\<close>, the \<^verbatim>\<open>waiters\<close> queue and the \<^verbatim>\<open>ready\<close> promise. The
  model keeps them in one record, together with whether \<^verbatim>\<open>window.CodeMask._state\<close>
  has been assigned and a trace of the effects a page can observe, in program order.
  Each queued waiter is the closure pushed by \<^verbatim>\<open>load\<close>; all it captures that matters
  here is its chunk id.

  What the browser provides is a parameter: \<^verbatim>\<open>encodeURIComponent\<close>, \<^verbatim>\<open>fetch\<close>
  (its answer may depend on how many requests went out before), \<^verbatim>\<open>new Function(src)\<close>
  and the call of such a function without arguments. Each may throw.
\<close>

datatype event =
    ReadyResolved
  | WaiterCalled string
  | FetchIssued string
  | ReadyEventDispatched
  | StatePublished

record payload =
  pkind :: string
  pcode :: string

record http_response =
  ok :: bool
  json_body :: "error + payload"

record 'v host =
  encodeURIComponent :: "string \<Rightarrow> string"
  fetch :: "nat \<Rightarrow> string \<Rightarrow> error + http_response"
  newFunction :: "string \<Rightarrow> error + 'v"
  call :: "'v \<Rightarrow> error + 'v"

record 'v loader =
  baseUrl :: string
  projectId :: string
  sdk_key :: string
  cache :: "string \<rightharpoonup> 'v"
  initialized :: bool
  waiters :: "string list"
  ready :: bool
  published :: bool
  trace :: "event list"

record options =
  opt_baseUrl :: string
  opt_projectId :: string
  opt_key :: string

definition new_loader :: "'v loader" where
  "new_loader = \<lparr>baseUrl = [], projectId = [], sdk_key = [], cache = Map.empty,
     initialized = False, waiters = [], ready = False, published = False, trace = []\<rparr>"

fun fetch_url :: "event \<Rightarrow> string list" where
  "fetch_url (FetchIssued u) = [u]"
| "fetch_url e = []"

fun called_id :: "event \<Rightarrow> string list" where
  "called_id (WaiterCalled c) = [c]"
| "called_id e = []"

definition fetches :: "event list \<Rightarrow> string list" where
  "fetches tr = concat (map fetch_url tr)"

definition flushed :: "event list \<Rightarrow> string list" where
  "flushed tr = concat (map called_id tr)"

definition emit :: "event \<Rightarrow> 'v loader \<Rightarrow> 'v loader" where
  "emit e l = l\<lparr>trace := trace l @ [e]\<rparr>"

definition chunk_url :: "'v host \<Rightarrow> string \<Rightarrow> 'v loader \<Rightarrow> string" where
  "chunk_url h cid l =
     baseUrl l @ ''/api/fetch/'' @ projectId l @ ''/'' @ cid @ ''?key=''
       @ encodeURIComponent h (sdk_key l)"

text \<open>
  \<^verbatim>\<open>_loadImpl\<close> runs in two turns. Up to \<^verbatim>\<open>await fetch(url)\<close> it runs inside its
  caller: a cache hit returns, a miss sends the request. The rest runs when the response
  has arrived.
\<close>

datatype 'v started = Cached 'v | Awaiting string

definition loadImpl_begin :: "'v host \<Rightarrow> string \<Rightarrow> 'v loader \<Rightarrow> 'v started \<times> 'v loader" where
  "loadImpl_begin h cid l =
     (case cache l cid of
        Some fn \<Rightarrow> (Cached fn, l)
      | None \<Rightarrow> (Awaiting (chunk_url h cid l), emit (FetchIssued (chunk_url h cid l)) l))"

definition loadImpl_resume ::
  "'v host \<Rightarrow> string \<Rightarrow> error + http_response \<Rightarrow> 'v loader \<Rightarrow> (error + 'v) \<times> 'v loader" where
  "loadImpl_resume h cid answer l =
     (case answer of
        Inl e \<Rightarrow> (Inl e, l)
      | Inr r \<Rightarrow>
          if \<not> ok r then (Inl (Error (''Failed to load chunk '' @ cid)), l)
          else
            (case json_body r of
               Inl e \<Rightarrow> (Inl e, l)
             | Inr data \<Rightarrow>
                 if pkind data = ''function'' then
                   (case newFunction h (''return '' @ pcode data) of
                      Inl e \<Rightarrow> (Inl e, l)
                    | Inr f \<Rightarrow>
                        (case call h f of
                           Inl e \<Rightarrow> (Inl e, l)
                         | Inr fn \<Rightarrow> (Inr fn, l\<lparr>cache := (cache l)(cid \<mapsto> fn)\<rparr>)))
                 else
                   (case newFunction h (pcode data) of
                      Inl e \<Rightarrow> (Inl e, l)
                    | Inr f \<Rightarrow> (Inr f, l))))"

text \<open>
  An awaited \<^verbatim>\<open>_loadImpl\<close> with nothing else running in between: the caller waits
  for the result before doing anything else.
\<close>

definition loadImpl :: "'v host \<Rightarrow> string \<Rightarrow> 'v loader \<Rightarrow> (error + 'v) \<times> 'v loader" where
  "loadImpl h cid l =
     (case loadImpl_begin h cid l of
        (Cached fn, l') \<Rightarrow> (Inr fn, l')
      | (Awaiting url, l') \<Rightarrow>
          loadImpl_resume h cid (fetch h (length (fetches (trace l))) url) l')"

datatype 'v load_result = Settled "error + 'v" | Queued

definition load :: "'v host \<Rightarrow> string \<Rightarrow> 'v loader \<Rightarrow> 'v load_result \<times> 'v loader" where
  "load h cid l =
     (if initialized l then (case loadImpl h cid l of (r, l') \<Rightarrow> (Settled r, l'))
      else (Queued, l\<lparr>waiters := waiters l @ [cid]\<rparr>))"

definition loads :: "'v host \<Rightarrow> string list \<Rightarrow> 'v loader \<Rightarrow> 'v loader" where
  "loads h cids l = foldl (\<lambda>l' c. snd (load h c l')) l cids"

text \<open>
  \<^verbatim>\<open>fn()\<close> on a queued waiter: the async arrow enters \<^verbatim>\<open>_loadImpl\<close> and runs it up
  to its first \<^verbatim>\<open>await\<close>; it cannot throw into \<^verbatim>\<open>init\<close>.
\<close>

definition run_waiter :: "'v host \<Rightarrow> 'v loader \<Rightarrow> string \<Rightarrow> 'v loader" where
  "run_waiter h l cid = snd (loadImpl_begin h cid (emit (WaiterCalled cid) l))"

definition init :: "'v host \<Rightarrow> options \<Rightarrow> 'v loader \<Rightarrow> 'v loader" where
  "init h opts l =
     (let l1 = l\<lparr>baseUrl := opt_baseUrl opts, projectId := opt_projectId opts,
                 sdk_key := opt_key opts, initialized := True\<rparr>;
          l2 = emit ReadyResolved (l1\<lparr>ready := True\<rparr>);
          queued = waiters l2;
          l3 = foldl (run_waiter h) (l2\<lparr>waiters := []\<rparr>) queued;
          l4 = emit ReadyEventDispatched l3
      in emit StatePublished (l4\<lparr>published := True\<rparr>))"

text \<open>
  The payload that the next request for a chunk would bring back, when it is a success
  response with a readable body.
\<close>

definition next_payload :: "'v host \<Rightarrow> string \<Rightarrow> 'v loader \<Rightarrow> payload option" where
  "next_payload h cid l =
     (case fetch h (length (fetches (trace l))) (chunk_url h cid l) of
        Inl e \<Rightarrow> None
      | Inr r \<Rightarrow>
          if ok r then (case json_body r of Inl e \<Rightarrow> None | Inr data \<Rightarrow> Some data)
          else None)"

text \<open>
  The three readiness signals among the events of a trace, and a sample browser for
  evaluating the loader: it answers one URL with a function payload and every other
  with a raw one, and stands for a compiled function by its source text.
\<close>

definition signals :: "event list \<Rightarrow> event list" where
  "signals tr =
     filter (\<lambda>e. e = ReadyResolved \<or> e = ReadyEventDispatched \<or> e = StatePublished) tr"

definition sample_host :: "string host" where
  "sample_host =
     \<lparr>encodeURIComponent = (\<lambda>s. s),
      fetch = (\<lambda>n u. Inr \<lparr>ok = True,
                 json_body = Inr (if u = ''http://h/api/fetch/p1/fn1?key=k1''
                                  then \<lparr>pkind = ''function'', pcode = ''(x) => { return x*2; }''\<rparr>
                                  else \<lparr>pkind = ''raw'', pcode = ''const TABLE = [1,2,3];''\<rparr>)\<rparr>),
      newFunction = (\<lambda>src. Inr src),
      call = (\<lambda>f. Inr (drop 7 f))\<rparr>"

definition sample_options :: options where
  "sample_options = \<lparr>opt_baseUrl = ''http://h'', opt_projectId = ''p1'', opt_key = ''k1''\<rparr>"

section \<open>Registry and fetch: properties\<close>

lemma apply_op_keeps_project:
  "store pid \<noteq> None \<Longrightarrow> apply_op store x pid \<noteq> None"
  by (cases x) (auto simp: createProject_def putChunk_def split: option.splits)

lemma run_ops_keeps_project:
  "store pid \<noteq> None \<Longrightarrow> run_ops xs store pid \<noteq> None"
proof (induction xs arbitrary: store)
  case Nil
  then show ?case by (simp add: run_ops_def)
next
  case (Cons x xs)
  from Cons.prems have "apply_op store x pid \<noteq> None" by (rule apply_op_keeps_project)
  with Cons.IH [of "apply_op store x"] show ?case by (simp add: run_ops_def)
qed

lemma apply_op_fresh_keeps:
  assumes "fresh_op store x" and "store pid = Some p"
  shows "\<exists>p'. apply_op store x pid = Some p' \<and> key p' = key p \<and>
           (\<forall>cid c. chunks p cid = Some c \<longrightarrow> chunks p' cid = Some c)"
  using assms
  by (cases x) (auto simp: createProject_def putChunk_def getChunk_def split: option.splits)

lemma run_ops_fresh_keeps:
  "fresh_ops xs store \<Longrightarrow> store pid = Some p \<Longrightarrow>
     \<exists>p'. run_ops xs store pid = Some p' \<and> key p' = key p \<and>
           (\<forall>cid c. chunks p cid = Some c \<longrightarrow> chunks p' cid = Some c)"
proof (induction xs arbitrary: store p)
  case Nil
  then show ?case by (simp add: run_ops_def)
next
  case (Cons x xs)
  from Cons.prems obtain q where q: "apply_op store x pid = Some q" "key q = key p"
    "\<forall>cid c. chunks p cid = Some c \<longrightarrow> chunks q cid = Some c"
    using apply_op_fresh_keeps [of store x pid p] by auto
  from Cons.prems have "fresh_ops xs (apply_op store x)" by simp
  from Cons.IH [OF this q(1)] obtain p' where
    "run_ops xs (apply_op store x) pid = Some p'" "key p' = key q"
    "\<forall>cid c. chunks q cid = Some c \<longrightarrow> chunks p' cid = Some c" by blast
  with q show ?case by (auto simp: run_ops_def)
qed

section \<open>Classifier: every match binds group 1, so \<^verbatim>\<open>analyze\<close> never throws\<close>

lemma ms_binds:
  "st' \<in> set (ms r st) \<Longrightarrow> bound st \<union> binds r \<subseteq> bound st'"
proof (induction r st arbitrary: st' rule: ms.induct)
  case (1 cs n s c)
  then show ?case by (auto simp: bound_def split: list.splits if_splits)
next
  case (2 st)
  then show ?case by simp
next
  case (3 n s c)
  then show ?case by (simp split: if_splits)
next
  case (4 n s c)
  then show ?case by (simp split: if_splits)
next
  case (5 a b st)
  from "5.prems" obtain mid where m: "mid \<in> set (ms a st)" "st' \<in> set (ms b mid)"
    by auto
  from "5.IH"(1) [OF m(1)] "5.IH"(2) [OF m(1) m(2)] show ?case
    by (simp only: binds.simps) blast
next
  case (6 a b st)
  from "6.prems" have "st' \<in> set (ms a st) \<or> st' \<in> set (ms b st)"
    by simp
  with "6.IH" show ?case
    by (simp only: binds.simps) blast
next
  case (7 a n s c)
  from "7.prems" have "st' \<in> set (ms a (n, s, c)) \<or> st' = (n, s, c)"
    by auto
  with "7.IH" show ?case
    by (simp only: binds.simps) blast
next
  case (8 a n s c)
  show ?case
  proof (cases "st' = (n, s, c)")
    case True
    then show ?thesis by simp
  next
    case False
    with "8.prems" obtain mid where m: "mid \<in> set (ms a (n, s, c))"
      "length (fst (snd mid)) < length s" "st' \<in> set (ms (Star a) mid)"
      by (auto split: if_splits)
    from "8.IH"(1) [OF m(1)] "8.IH"(2) [OF m(1) m(2) m(3)] show ?thesis
      by (simp only: binds.simps) blast
  qed
next
  case (9 a n s c)
  show ?case
  proof (cases "st' = (n, s, c)")
    case True
    then show ?thesis by simp
  next
    case False
    with "9.prems" obtain mid where m: "mid \<in> set (ms a (n, s, c))"
      "length (fst (snd mid)) < length s" "st' \<in> set (ms (LazyStar a) mid)"
      by (auto split: if_splits)
    from "9.IH"(1) [OF m(1)] "9.IH"(2) [OF m(1) m(2) m(3)] show ?thesis
      by (simp only: binds.simps) blast
  qed
next
  case (10 k a n s c)
  from "10.prems" obtain n' s' c' where m: "(n', s', c') \<in> set (ms a (n, s, c))"
    "st' = (n', s', (k, take (n' - n) s) # c')"
    by auto
  from "10.IH" [OF m(1)] m(2) show ?case
    by (auto simp: bound_def)
qed

lemma re_match_binds:
  assumes "re_match r s = Some m" and "k \<in> binds r"
  shows "\<exists>t. group m k = Some t"
proof -
  from assms(1) obtain n s' rest where "ms r (0, s, []) = (n, s', m) # rest"
    by (auto simp: re_match_def split: list.splits)
  then have "(n, s', m) \<in> set (ms r (0, s, []))"
    by simp
  from ms_binds [OF this] assms(2) have "k \<in> fst ` set m"
    by (auto simp: bound_def)
  then show ?thesis
    by (cases "map_of m k") (simp_all add: group_def map_of_eq_None_iff)
qed

lemma binds_seqs: "binds (seqs rs) = (\<Union>r \<in> set rs. binds r)"
  by (induction rs) (auto simp: seqs_def)

lemma one_binds: "1 \<in> binds decl_re" "1 \<in> binds arrow_re" "1 \<in> binds constant_re"
  by (simp_all add: decl_re_def arrow_re_def constant_re_def binds_seqs)

lemma analyze_total: "\<exists>i. analyze snip = Inr i"
proof -
  have g: "\<exists>t. trim_group m 1 = Inr t" if "\<exists>t. group m 1 = Some t" for m
    using that by (auto simp: trim_group_def)
  show ?thesis
  proof (cases "re_match decl_re (js_trim snip)")
    case (Some m)
    with g [OF re_match_binds [OF Some one_binds(1)]] show ?thesis
      by (auto simp: analyze_def)
  next
    case None
    note d = None
    show ?thesis
    proof (cases "re_match arrow_re (js_trim snip)")
      case (Some m)
      with d g [OF re_match_binds [OF Some one_binds(2)]] show ?thesis
        by (auto simp: analyze_def)
    next
      case None
      note a = None
      show ?thesis
      proof (cases "re_match constant_re (js_trim snip)")
        case (Some m)
        with d a g [OF re_match_binds [OF Some one_binds(3)]] show ?thesis
          by (auto simp: analyze_def)
      next
        case None
        with d a show ?thesis
          by (simp add: analyze_def)
      qed
    qed
  qed
qed

section \<open>Searching: \<^verbatim>\<open>indexOf\<close> finds the first occurrence\<close>

lemma first_at_None_iff: "first_at pat s i = None \<longleftrightarrow> \<not> sublist pat s"
  by (induction s arbitrary: i) (auto simp: sublist_Cons_right)

lemma first_at_None_pos:
  "pat \<noteq> [] \<Longrightarrow> first_at pat s b = None \<longleftrightarrow> (\<forall>k. \<not> prefix pat (drop k s))"
proof (induction s arbitrary: b)
  case Nil
  then show ?case by simp
next
  case (Cons x xs)
  show ?case
  proof (cases "prefix pat (x # xs)")
    case True
    then have "prefix pat (drop 0 (x # xs))" by simp
    with True show ?thesis by (metis first_at.simps(2) option.distinct(1))
  next
    case False
    have "(\<forall>k. \<not> prefix pat (drop k (x # xs))) \<longleftrightarrow> (\<forall>k. \<not> prefix pat (drop k xs))"
    proof
      assume a: "\<forall>k. \<not> prefix pat (drop k (x # xs))"
      show "\<forall>k. \<not> prefix pat (drop k xs)"
      proof
        fix k from a have "\<not> prefix pat (drop (Suc k) (x # xs))" by blast
        then show "\<not> prefix pat (drop k xs)" by simp
      qed
    next
      assume a: "\<forall>k. \<not> prefix pat (drop k xs)"
      show "\<forall>k. \<not> prefix pat (drop k (x # xs))"
      proof
        fix k show "\<not> prefix pat (drop k (x # xs))"
          using a False by (cases k) simp_all
      qed
    qed
    with False Cons.IH [OF Cons.prems, of "Suc b"] show ?thesis by simp
  qed
qed

lemma first_at_Some_iff:
  "pat \<noteq> [] \<Longrightarrow> first_at pat s b = Some j \<longleftrightarrow>
     (\<exists>d. j = b + d \<and> prefix pat (drop d s) \<and> (\<forall>k<d. \<not> prefix pat (drop k s)))"
proof (induction s arbitrary: b)
  case Nil
  then show ?case by simp
next
  case (Cons x xs)
  show ?case
  proof (cases "prefix pat (x # xs)")
    case True
    have "(\<exists>d. j = b + d \<and> prefix pat (drop d (x # xs)) \<and> (\<forall>k<d. \<not> prefix pat (drop k (x # xs))))
            \<longleftrightarrow> j = b"
    proof
      assume "\<exists>d. j = b + d \<and> prefix pat (drop d (x # xs)) \<and> (\<forall>k<d. \<not> prefix pat (drop k (x # xs)))"
      then obtain d where d: "j = b + d" "\<forall>k<d. \<not> prefix pat (drop k (x # xs))" by blast
      have "d = 0"
      proof (rule ccontr)
        assume "d \<noteq> 0"
        then have "0 < d" by simp
        with d(2) have "\<not> prefix pat (drop 0 (x # xs))" by blast
        with True show False by simp
      qed
      with d show "j = b" by simp
    next
      assume "j = b"
      with True show "\<exists>d. j = b + d \<and> prefix pat (drop d (x # xs)) \<and> (\<forall>k<d. \<not> prefix pat (drop k (x # xs)))"
        by (intro exI [of _ 0]) simp
    qed
    with True show ?thesis by auto
  next
    case False
    have "(\<exists>d. j = b + d \<and> prefix pat (drop d (x # xs)) \<and> (\<forall>k<d. \<not> prefix pat (drop k (x # xs))))
            \<longleftrightarrow> (\<exists>d. j = Suc b + d \<and> prefix pat (drop d xs) \<and> (\<forall>k<d. \<not> prefix pat (drop k xs)))"
      (is "?L \<longleftrightarrow> ?R")
    proof
      assume ?L
      then obtain d where d: "j = b + d" "prefix pat (drop d (x # xs))"
        "\<forall>k<d. \<not> prefix pat (drop k (x # xs))" by blast
      with False obtain d' where d': "d = Suc d'" by (cases d) auto
      have "\<forall>k<d'. \<not> prefix pat (drop k xs)"
      proof (intro allI impI)
        fix k assume "k < d'"
        with d' d(3) have "\<not> prefix pat (drop (Suc k) (x # xs))" by auto
        then show "\<not> prefix pat (drop k xs)" by simp
      qed
      with d d' show ?R by (intro exI [of _ d']) simp
    next
      assume ?R
      then obtain d where d: "j = Suc b + d" "prefix pat (drop d xs)"
        "\<forall>k<d. \<not> prefix pat (drop k xs)" by blast
      have "\<forall>k<Suc d. \<not> prefix pat (drop k (x # xs))"
      proof (intro allI impI)
        fix k assume "k < Suc d"
        then show "\<not> prefix pat (drop k (x # xs))"
          using False d(3) by (cases k) auto
      qed
      with d show ?L by (intro exI [of _ "Suc d"]) simp
    qed
    with False Cons.IH [OF Cons.prems, of "Suc b"] show ?thesis by simp
  qed
qed

lemma indexOf_None_iff:
  assumes "pat \<noteq> []"
  shows "indexOf c pat i = None \<longleftrightarrow> (\<forall>k\<ge>i. \<not> occurs_at pat c k)"
proof -
  have "(\<forall>k. \<not> prefix pat (drop k (drop i c))) \<longleftrightarrow> (\<forall>k\<ge>i. \<not> prefix pat (drop k c))"
  proof
    assume a: "\<forall>k. \<not> prefix pat (drop k (drop i c))"
    show "\<forall>k\<ge>i. \<not> prefix pat (drop k c)"
    proof (intro allI impI)
      fix k assume "i \<le> k"
      from a have "\<not> prefix pat (drop (k - i) (drop i c))" by blast
      with \<open>i \<le> k\<close> show "\<not> prefix pat (drop k c)" by simp
    qed
  next
    assume a: "\<forall>k\<ge>i. \<not> prefix pat (drop k c)"
    show "\<forall>k. \<not> prefix pat (drop k (drop i c))"
    proof
      fix k from a have "\<not> prefix pat (drop (k + i) c)" by simp
      then show "\<not> prefix pat (drop k (drop i c))" by simp
    qed
  qed
  with assms show ?thesis
    by (simp add: indexOf_def occurs_at_def first_at_None_pos)
qed

lemma indexOf_Some_iff:
  assumes "pat \<noteq> []"
  shows "indexOf c pat i = Some j \<longleftrightarrow>
           i \<le> j \<and> occurs_at pat c j \<and> (\<forall>k. i \<le> k \<and> k < j \<longrightarrow> \<not> occurs_at pat c k)"
proof (cases "i \<le> length c")
  case True
  then have m: "min i (length c) = i" by simp
  have "(\<exists>d. j = i + d \<and> prefix pat (drop d (drop i c)) \<and> (\<forall>k<d. \<not> prefix pat (drop k (drop i c))))
      \<longleftrightarrow> i \<le> j \<and> prefix pat (drop j c) \<and> (\<forall>k. i \<le> k \<and> k < j \<longrightarrow> \<not> prefix pat (drop k c))"
    (is "?L \<longleftrightarrow> ?R")
  proof
    assume ?L
    then obtain d where d: "j = i + d" "prefix pat (drop d (drop i c))"
      "\<forall>k<d. \<not> prefix pat (drop k (drop i c))" by blast
    have "\<forall>k. i \<le> k \<and> k < j \<longrightarrow> \<not> prefix pat (drop k c)"
    proof (intro allI impI)
      fix k assume k: "i \<le> k \<and> k < j"
      with d(1) have "k - i < d" by arith
      with d(3) have "\<not> prefix pat (drop (k - i) (drop i c))" by blast
      with k show "\<not> prefix pat (drop k c)" by simp
    qed
    with d show ?R by (simp add: add.commute)
  next
    assume r: ?R
    have "\<forall>k<j - i. \<not> prefix pat (drop k (drop i c))"
    proof (intro allI impI)
      fix k assume "k < j - i"
      with r have "\<not> prefix pat (drop (k + i) c)" by simp
      then show "\<not> prefix pat (drop k (drop i c))" by simp
    qed
    with r show ?L by (intro exI [of _ "j - i"]) simp
  qed
  with assms m show ?thesis
    by (simp add: indexOf_def occurs_at_def first_at_Some_iff)
next
  case False
  with assms have "indexOf c pat i = None"
    by (simp add: indexOf_def)
  moreover from False assms have "i \<le> j \<Longrightarrow> \<not> occurs_at pat c j"
    by (simp add: occurs_at_def)
  ultimately show ?thesis by auto
qed

lemma occurs_at_bound:
  assumes "pat \<noteq> []" and "occurs_at pat c k"
  shows "k + length pat \<le> length c"
proof -
  from assms(2) have "length pat \<le> length c - k"
    using prefix_length_le [of pat "drop k c"] by (simp add: occurs_at_def)
  moreover from assms(1) have "0 < length pat" by simp
  ultimately show ?thesis by arith
qed

lemma occurs_at_take:
  assumes "pat \<noteq> []"
  shows "occurs_at pat (take s c) k \<longleftrightarrow> occurs_at pat c k \<and> k + length pat \<le> s"
proof
  assume a: "occurs_at pat (take s c) k"
  then have "prefix pat (take (s - k) (drop k c))"
    by (simp add: occurs_at_def drop_take)
  moreover have "prefix (take (s - k) (drop k c)) (drop k c)"
    by (rule take_is_prefix)
  ultimately have "occurs_at pat c k"
    unfolding occurs_at_def by (rule prefix_order.trans)
  moreover from occurs_at_bound [OF assms a] have "k + length pat \<le> s"
    by simp
  ultimately show "occurs_at pat c k \<and> k + length pat \<le> s" ..
next
  assume a: "occurs_at pat c k \<and> k + length pat \<le> s"
  then obtain r where r: "drop k c = pat @ r"
    by (auto simp: occurs_at_def prefix_def)
  from a have "length pat \<le> s - k" by arith
  then have "take (s - k) (pat @ r) = pat @ take (s - k - length pat) r"
    by simp
  with r show "occurs_at pat (take s c) k"
    by (simp add: occurs_at_def drop_take)
qed

section \<open>Scanner: the loop on a text and on a prefix of it\<close>

lemma analyze_not_Inl: "analyze snip \<noteq> Inl e"
  using analyze_total [of snip] by auto

lemma scan_total: "\<exists>out' cs'. scan ids content idx out cs k = Inr (out', cs')"
proof (induction ids content idx out cs k rule: scan.induct)
  case (1 ids content idx out cs k)
  then show ?case
    by (subst scan.simps) (auto simp: analyze_not_Inl split: option.splits sum.splits)
qed

lemma indexOf_no_sublist: "\<not> sublist pat c \<Longrightarrow> indexOf c pat i = None"
proof -
  assume a: "\<not> sublist pat c"
  have "sublist (drop i c) c" by simp
  with a have "\<not> sublist pat (drop i c)"
    using sublist_order.order.trans by blast
  then show ?thesis
    by (simp add: indexOf_def first_at_None_iff)
qed

lemma scan_no_marker:
  "\<not> sublist CM_START c \<Longrightarrow> scan ids c idx out cs k = Inr (out @ drop idx c, cs)"
  by (subst scan.simps) (simp add: indexOf_no_sublist slice_from_def)

lemma includes_str_iff: "includes_str c pat \<longleftrightarrow> sublist pat c"
  by (simp add: includes_str_def indexOf_def first_at_None_iff)

lemma transformFile_scan: "transformFile ids path c = scan ids c 0 [] [] 0"
  by (simp add: transformFile_def includes_str_iff scan_no_marker)

lemma start_excludes_end:
  assumes "occurs_at CM_START c st"
  shows "\<not> occurs_at CM_END c st" and "\<not> occurs_at CM_END c (Suc st)"
proof -
  from assms obtain r where r: "drop st c = CM_START @ r"
    by (auto simp: occurs_at_def prefix_def)
  then show "\<not> occurs_at CM_END c st"
    by (simp add: occurs_at_def CM_START_def CM_END_def)
  have "drop (Suc st) c = tl (drop st c)"
    by (simp add: drop_Suc tl_drop)
  with r show "\<not> occurs_at CM_END c (Suc st)"
    by (simp add: occurs_at_def CM_START_def CM_END_def)
qed

lemma markers_nonempty: "CM_START \<noteq> []" "CM_END \<noteq> []" "length CM_START = 20" "length CM_END = 18"
  by (simp_all add: CM_START_def CM_END_def)

lemma slice_take: "b \<le> s \<Longrightarrow> slice (take s c) a b = slice c a b"
  by (simp add: slice_def drop_take min_def)

lemma take_drop_join: "a \<le> b \<Longrightarrow> take (b - a) (drop a c) @ drop b c = drop a c"
proof -
  assume "a \<le> b"
  then have "drop b c = drop (b - a) (drop a c)" by simp
  then show ?thesis by (simp only: append_take_drop_id)
qed

lemma scan_prefix:
  "occurs_at CM_START content s \<Longrightarrow> \<forall>e. occurs_at CM_END content e \<longrightarrow> e + 18 \<le> s \<Longrightarrow>
   idx \<le> s \<Longrightarrow>
    scan ids content idx out cs k =
      (case scan ids (take s content) idx out cs k of
         Inl e \<Rightarrow> Inl e
       | Inr (out', cs') \<Rightarrow> Inr (out' @ drop s content, cs'))"
proof (induction ids content idx out cs k rule: scan.induct)
  case (1 ids content idx out cs k)
  note S = "1.prems"(1)
  note E = "1.prems"(2)
  note I = "1.prems"(3)
  from occurs_at_bound [OF markers_nonempty(1) S] have len: "s + 20 \<le> length content"
    by (simp add: markers_nonempty)
  then have lenP: "length (take s content) = s" by simp
  from I len have lt: "idx < length content" by simp
  have noEnd: "indexOf content CM_END j = None" if "s < j + 20" "occurs_at CM_START content j" for j
  proof (rule ccontr)
    assume "indexOf content CM_END j \<noteq> None"
    then obtain e where "indexOf content CM_END j = Some e" by auto
    then have e: "j \<le> e" "occurs_at CM_END content e"
      by (simp_all add: indexOf_Some_iff markers_nonempty)
    with E have "e + 18 \<le> s" by blast
    with that(1) e(1) have "e = j \<or> e = Suc j" by arith
    with e(2) start_excludes_end [OF that(2)] show False by auto
  qed
  from S I have "indexOf content CM_START idx \<noteq> None"
    by (auto simp: indexOf_None_iff markers_nonempty)
  then obtain st where st: "indexOf content CM_START idx = Some st" by auto
  then have st1: "idx \<le> st" "occurs_at CM_START content st"
    and st2: "\<forall>j. idx \<le> j \<and> j < st \<longrightarrow> \<not> occurs_at CM_START content j"
    by (simp_all add: indexOf_Some_iff markers_nonempty)
  have st3: "st \<le> s"
  proof (rule ccontr)
    assume "\<not> st \<le> s"
    with st2 I have "\<not> occurs_at CM_START content s" by simp
    with S show False by simp
  qed
  show ?case
  proof (cases "st + 20 \<le> s")
    case True
    have stP: "indexOf (take s content) CM_START idx = Some st"
      using st1 st2 True
      by (simp add: indexOf_Some_iff markers_nonempty occurs_at_take)
    have ltP: "idx < length (take s content)"
      unfolding lenP using True st1 by arith
    show ?thesis
    proof (cases "indexOf content CM_END st")
      case None
      then have "indexOf (take s content) CM_END st = None"
        by (simp add: indexOf_None_iff markers_nonempty occurs_at_take)
      moreover have "drop st (take s content) @ drop s content = drop st content"
        using take_drop_join [OF st3, of content] by (simp add: drop_take)
      ultimately show ?thesis
        using None st stP lt ltP st3
        by (subst scan.simps, subst (2) scan.simps) (simp add: slice_take slice_from_def)
    next
      case (Some e)
      then have e: "st \<le> e" "occurs_at CM_END content e"
        and e2: "\<forall>j. st \<le> j \<and> j < e \<longrightarrow> \<not> occurs_at CM_END content j"
        by (simp_all add: indexOf_Some_iff markers_nonempty)
      from E e(2) have e3: "e + 18 \<le> s" by blast
      have eP: "indexOf (take s content) CM_END st = Some e"
        using e e2 e3
        by (simp add: indexOf_Some_iff markers_nonempty occurs_at_take)
      have raw: "slice (take s content) (st + length CM_START) e = slice content (st + length CM_START) e"
        using e3 by (intro slice_take) simp
      show ?thesis
      proof (cases "analyze (js_trim (slice content (st + length CM_START) e))")
        case (Inl err)
        then show ?thesis by (simp add: analyze_not_Inl)
      next
        case (Inr i)
        from e3 have "e + length CM_END \<le> s" by (simp add: markers_nonempty)
        from "1.IH" [OF lt st Some Inr S E this]
        show ?thesis
          using Some st stP eP lt ltP st3 raw Inr
          by (subst scan.simps, subst (2) scan.simps) (simp add: slice_take)
      qed
    qed
  next
    case False
    then have over: "s < st + 20" by simp
    from noEnd [OF over st1(2)] have noE: "indexOf content CM_END st = None" .
    have whole: "scan ids content idx out cs k = Inr (out @ drop idx content, cs)"
    proof -
      have "slice content idx st @ drop st content = drop idx content"
        using take_drop_join [OF st1(1), of content] by (simp add: slice_def)
      with st noE lt show ?thesis
        by (subst scan.simps) (simp add: slice_from_def)
    qed
    have cut: "drop idx (take s content) @ drop s content = drop idx content"
      using take_drop_join [OF I, of content] by (simp add: drop_take)
    have noP: "indexOf (take s content) CM_START idx = None"
    proof -
      have "\<not> occurs_at CM_START (take s content) j" if "idx \<le> j" for j
      proof
        assume "occurs_at CM_START (take s content) j"
        then have j: "occurs_at CM_START content j" "j + 20 \<le> s"
          by (simp_all add: occurs_at_take markers_nonempty)
        with st2 that have "st \<le> j" by (meson not_le_imp_less)
        with j(2) over show False by simp
      qed
      then show ?thesis
        by (simp add: indexOf_None_iff markers_nonempty)
    qed
    have "scan ids (take s content) idx out cs k = Inr (out @ drop idx (take s content), cs)"
    proof (cases "idx < s")
      case True
      with noP show ?thesis
        by (subst scan.simps) (simp add: lenP slice_from_def)
    next
      case False
      then show ?thesis
        by (subst scan.simps) (simp add: lenP)
    qed
    with whole cut show ?thesis by simp
  qed
qed

section \<open>Loader: traces and the cache\<close>

lemma fetches_append: "fetches (a @ b) = fetches a @ fetches b"
  by (simp add: fetches_def)

lemma flushed_append: "flushed (a @ b) = flushed a @ flushed b"
  by (simp add: flushed_def)

lemma signals_append: "signals (a @ b) = signals a @ signals b"
  by (simp add: signals_def)

lemma run_waiter_trace:
  "\<exists>mid. trace (run_waiter h l c) = trace l @ mid \<and> flushed mid = [c] \<and> signals mid = []"
proof (cases "cache l c")
  case None
  then have "trace (run_waiter h l c)
      = trace l @ [WaiterCalled c, FetchIssued (chunk_url h c (emit (WaiterCalled c) l))]"
    by (simp add: run_waiter_def loadImpl_begin_def emit_def)
  then show ?thesis
    by (simp add: flushed_def signals_def)
next
  case (Some v)
  then have "trace (run_waiter h l c) = trace l @ [WaiterCalled c]"
    by (simp add: run_waiter_def loadImpl_begin_def emit_def)
  then show ?thesis
    by (simp add: flushed_def signals_def)
qed

lemma run_waiter_fields:
  "waiters (run_waiter h l c) = waiters l" "initialized (run_waiter h l c) = initialized l"
  "ready (run_waiter h l c) = ready l" "published (run_waiter h l c) = published l"
  by (simp_all add: run_waiter_def loadImpl_begin_def emit_def split: option.splits)

lemma flush_fields:
  "waiters (foldl (run_waiter h) l qs) = waiters l"
  "initialized (foldl (run_waiter h) l qs) = initialized l"
  "ready (foldl (run_waiter h) l qs) = ready l"
  "published (foldl (run_waiter h) l qs) = published l"
  by (induction qs arbitrary: l) (simp_all add: run_waiter_fields)

lemma flush_trace:
  "\<exists>mid. trace (foldl (run_waiter h) l qs) = trace l @ mid \<and> flushed mid = qs \<and> signals mid = []"
proof (induction qs arbitrary: l)
  case Nil
  show ?case by (simp add: flushed_def signals_def)
next
  case (Cons c qs)
  obtain m1 where m1: "trace (run_waiter h l c) = trace l @ m1" "flushed m1 = [c]" "signals m1 = []"
    using run_waiter_trace by blast
  obtain m2 where m2: "trace (foldl (run_waiter h) (run_waiter h l c) qs) = trace (run_waiter h l c) @ m2"
    "flushed m2 = qs" "signals m2 = []"
    using Cons.IH by blast
  from m1 m2 have "trace (foldl (run_waiter h) l (c # qs)) = trace l @ (m1 @ m2)
      \<and> flushed (m1 @ m2) = c # qs \<and> signals (m1 @ m2) = []"
    by (simp add: flushed_append signals_append)
  then show ?case by blast
qed

lemma run_waiter_exact:
  "trace (run_waiter h l c)
     = trace l @ WaiterCalled c #
         (case cache l c of None \<Rightarrow> [FetchIssued (chunk_url h c l)] | Some fn \<Rightarrow> [])"
  by (simp add: run_waiter_def loadImpl_begin_def emit_def chunk_url_def split: option.splits)

lemma run_waiter_state:
  "cache (run_waiter h l c) = cache l" "baseUrl (run_waiter h l c) = baseUrl l"
  "projectId (run_waiter h l c) = projectId l" "sdk_key (run_waiter h l c) = sdk_key l"
  by (simp_all add: run_waiter_def loadImpl_begin_def emit_def split: option.splits)

lemma flush_state:
  "cache (foldl (run_waiter h) l qs) = cache l"
  "baseUrl (foldl (run_waiter h) l qs) = baseUrl l"
  "projectId (foldl (run_waiter h) l qs) = projectId l"
  "sdk_key (foldl (run_waiter h) l qs) = sdk_key l"
  by (induction qs arbitrary: l) (simp_all add: run_waiter_state)

lemma flush_exact:
  "trace (foldl (run_waiter h) l qs)
     = trace l @ concat (map (\<lambda>c. WaiterCalled c #
         (case cache l c of None \<Rightarrow> [FetchIssued (chunk_url h c l)] | Some fn \<Rightarrow> [])) qs)"
proof (induction qs arbitrary: l)
  case Nil
  show ?case by simp
next
  case (Cons x qs)
  have u: "chunk_url h c (run_waiter h l x) = chunk_url h c l" for c
    by (simp add: chunk_url_def run_waiter_state)
  from Cons.IH [of "run_waiter h l x"] show ?case
    by (simp add: run_waiter_exact run_waiter_state u cong: option.case_cong)
qed

lemma resume_trace: "trace (snd (loadImpl_resume h cid a l)) = trace l"
  by (simp add: loadImpl_resume_def split: sum.splits)

lemma resume_keeps_cache:
  "cache l c = Some v \<Longrightarrow> c \<noteq> cid \<Longrightarrow> cache (snd (loadImpl_resume h cid a l)) c = Some v"
  by (simp add: loadImpl_resume_def split: sum.splits)

lemma loadImpl_keeps_cache:
  assumes "cache l c = Some v"
  shows "cache (snd (loadImpl h cid l)) c = Some v"
proof (cases "cache l cid")
  case None
  with assms have "c \<noteq> cid" by auto
  with assms None show ?thesis
    by (simp add: loadImpl_def loadImpl_begin_def resume_keeps_cache emit_def)
next
  case (Some w)
  with assms show ?thesis
    by (simp add: loadImpl_def loadImpl_begin_def)
qed

lemma load_snd: "initialized l \<Longrightarrow> snd (load h cid l) = snd (loadImpl h cid l)"
  by (simp add: load_def split: prod.splits)

lemma load_keeps_cache:
  assumes "cache l c = Some v"
  shows "cache (snd (load h cid l)) c = Some v"
proof (cases "initialized l")
  case True
  with loadImpl_keeps_cache [OF assms] show ?thesis
    by (simp add: load_snd)
next
  case False
  with assms show ?thesis
    by (simp add: load_def)
qed

lemma loadImpl_trace_miss:
  "cache l cid = None \<Longrightarrow>
     trace (snd (loadImpl h cid l)) = trace l @ [FetchIssued (chunk_url h cid l)]"
  by (simp add: loadImpl_def loadImpl_begin_def resume_trace emit_def)

lemma loads_keeps_cache:
  "cache l c = Some v \<Longrightarrow> cache (loads h cids l) c = Some v"
  unfolding loads_def
proof (induction cids arbitrary: l)
  case Nil
  then show ?case by simp
next
  case (Cons x xs)
  from Cons.prems have "cache (snd (load h x l)) c = Some v"
    by (rule load_keeps_cache)
  from Cons.IH [OF this] show ?case by simp
qed

text \<open>
  C1. For every stored project and every chunk id, whether it is stored or not, a fetch
  with a supplied key (absent, structured, or a string) that is not the project's key
  answers 403 with \<^verbatim>\<open>{error: "Invalid key"}\<close>: the key is checked after the project
  and before any chunk lookup, so the answer is never "Chunk not found".
\<close>

theorem fetch_wrong_key_forbidden:
  assumes "getProject pid store = Some p" and "qkey \<noteq> Str (key p)"
  shows "api_fetch pid cid qkey store =
           \<lparr>status = 403, json = [(''error'', JString ''Invalid key'')]\<rparr>"
proof -
  from assms(2) have "strict_neq qkey (key p)"
    by (cases qkey) (simp_all add: strict_neq_def)
  with assms(1) show ?thesis
    by (simp add: api_fetch_def)
qed

theorem fetch_wrong_key_forbidden_witness:
  "getProject ''p1'' (createProject ''p1'' ''secret'' Map.empty)
     = Some \<lparr>key = ''secret'', chunks = Map.empty\<rparr>
   \<and> Str ''wrong'' \<noteq> Str (key \<lparr>key = ''secret'', chunks = Map.empty\<rparr>)
   \<and> getChunk ''p1'' ''chunk_missing'' (createProject ''p1'' ''secret'' Map.empty) = None
   \<and> api_fetch ''p1'' ''chunk_missing'' (Str ''wrong'') (createProject ''p1'' ''secret'' Map.empty)
     = \<lparr>status = 403, json = [(''error'', JString ''Invalid key'')]\<rparr>"
proof -
  have a: "getProject ''p1'' (createProject ''p1'' ''secret'' Map.empty)
             = Some \<lparr>key = ''secret'', chunks = Map.empty\<rparr>"
    by (simp add: getProject_def createProject_def)
  have b: "Str ''wrong'' \<noteq> Str (key \<lparr>key = ''secret'', chunks = Map.empty\<rparr>)"
    by simp
  have c: "getChunk ''p1'' ''chunk_missing'' (createProject ''p1'' ''secret'' Map.empty) = None"
    by (simp add: getChunk_def createProject_def)
  from fetch_wrong_key_forbidden [OF a b, of "''chunk_missing''"] a b c show ?thesis
    by blast
qed

text \<open>
  C2. For a stored chunk and the project's own key, the answer is shaped by the stored
  type. Type \<^verbatim>\<open>decl\<close> or \<^verbatim>\<open>arrow\<close> (the two function kinds): status 200 with
  \<^verbatim>\<open>ok: true\<close>, \<^verbatim>\<open>kind: "function"\<close>, the stored name and the code
  \<^verbatim>\<open>(params) => { body }\<close>. Type \<^verbatim>\<open>constant\<close> or \<^verbatim>\<open>raw\<close> (constant and unknown
  chunks): status 200 with \<^verbatim>\<open>ok: true\<close>, \<^verbatim>\<open>kind: "raw"\<close> and the stored original
  text as the code, and no \<^verbatim>\<open>name\<close> field.
\<close>

theorem fetch_success_shape:
  assumes "getProject pid store = Some p" and "getChunk pid cid store = Some c"
  shows "(type c = ''decl'' \<or> type c = ''arrow'' \<longrightarrow>
            api_fetch pid cid (Str (key p)) store =
              \<lparr>status = 200,
               json = [(''ok'', JBool True), (''kind'', JString ''function''),
                       (''name'', name_json (name c)),
                       (''code'', JString (''('' @ params c @ '') => { '' @ body c @ '' }''))]\<rparr>)
       \<and> (type c = ''constant'' \<or> type c = ''raw'' \<longrightarrow>
            api_fetch pid cid (Str (key p)) store =
              \<lparr>status = 200,
               json = [(''ok'', JBool True), (''kind'', JString ''raw''),
                       (''code'', JString (original c))]\<rparr>
            \<and> map_of (json (api_fetch pid cid (Str (key p)) store)) ''name'' = None)"
proof -
  have k: "\<not> strict_neq (Str (key p)) (key p)"
    by (simp add: strict_neq_def)
  show ?thesis
  proof (intro conjI impI)
    assume "type c = ''decl'' \<or> type c = ''arrow''"
    with assms k show "api_fetch pid cid (Str (key p)) store =
              \<lparr>status = 200,
               json = [(''ok'', JBool True), (''kind'', JString ''function''),
                       (''name'', name_json (name c)),
                       (''code'', JString (''('' @ params c @ '') => { '' @ body c @ '' }''))]\<rparr>"
      by (simp add: api_fetch_def)
  next
    assume t: "type c = ''constant'' \<or> type c = ''raw''"
    then have "\<not> (type c = ''decl'' \<or> type c = ''arrow'')"
      by auto
    with assms k show r: "api_fetch pid cid (Str (key p)) store =
              \<lparr>status = 200,
               json = [(''ok'', JBool True), (''kind'', JString ''raw''),
                       (''code'', JString (original c))]\<rparr>"
      by (simp add: api_fetch_def)
    show "map_of (json (api_fetch pid cid (Str (key p)) store)) ''name'' = None"
      by (simp add: r)
  qed
qed

theorem fetch_success_shape_witness:
  "api_fetch ''p1'' ''chunk_1'' (Str ''secret'')
      [''p1'' \<mapsto> \<lparr>key = ''secret'',
         chunks = [''chunk_1'' \<mapsto> \<lparr>name = Some ''foo'', params = ''x'', body = ''return x*2;'',
                      original = ''function foo(x){ return x*2; }'', type = ''decl''\<rparr>,
                   ''chunk_2'' \<mapsto> \<lparr>name = Some ''TABLE'', params = [], body = [],
                      original = ''const TABLE = [1,2,3];'', type = ''constant''\<rparr>]\<rparr>]
     = \<lparr>status = 200,
        json = [(''ok'', JBool True), (''kind'', JString ''function''),
                (''name'', JString ''foo''), (''code'', JString ''(x) => { return x*2; }'')]\<rparr>
   \<and> api_fetch ''p1'' ''chunk_2'' (Str ''secret'')
      [''p1'' \<mapsto> \<lparr>key = ''secret'',
         chunks = [''chunk_1'' \<mapsto> \<lparr>name = Some ''foo'', params = ''x'', body = ''return x*2;'',
                      original = ''function foo(x){ return x*2; }'', type = ''decl''\<rparr>,
                   ''chunk_2'' \<mapsto> \<lparr>name = Some ''TABLE'', params = [], body = [],
                      original = ''const TABLE = [1,2,3];'', type = ''constant''\<rparr>]\<rparr>]
     = \<lparr>status = 200,
        json = [(''ok'', JBool True), (''kind'', JString ''raw''),
                (''code'', JString ''const TABLE = [1,2,3];'')]\<rparr>"
  using
    fetch_success_shape [of "''p1''"
      "[''p1'' \<mapsto> \<lparr>key = ''secret'',
         chunks = [''chunk_1'' \<mapsto> \<lparr>name = Some ''foo'', params = ''x'', body = ''return x*2;'',
                      original = ''function foo(x){ return x*2; }'', type = ''decl''\<rparr>,
                   ''chunk_2'' \<mapsto> \<lparr>name = Some ''TABLE'', params = [], body = [],
                      original = ''const TABLE = [1,2,3];'', type = ''constant''\<rparr>]\<rparr>]"
      "\<lparr>key = ''secret'',
         chunks = [''chunk_1'' \<mapsto> \<lparr>name = Some ''foo'', params = ''x'', body = ''return x*2;'',
                      original = ''function foo(x){ return x*2; }'', type = ''decl''\<rparr>,
                   ''chunk_2'' \<mapsto> \<lparr>name = Some ''TABLE'', params = [], body = [],
                      original = ''const TABLE = [1,2,3];'', type = ''constant''\<rparr>]\<rparr>"
      "''chunk_1''"
      "\<lparr>name = Some ''foo'', params = ''x'', body = ''return x*2;'',
        original = ''function foo(x){ return x*2; }'', type = ''decl''\<rparr>"]
    fetch_success_shape [of "''p1''"
      "[''p1'' \<mapsto> \<lparr>key = ''secret'',
         chunks = [''chunk_1'' \<mapsto> \<lparr>name = Some ''foo'', params = ''x'', body = ''return x*2;'',
                      original = ''function foo(x){ return x*2; }'', type = ''decl''\<rparr>,
                   ''chunk_2'' \<mapsto> \<lparr>name = Some ''TABLE'', params = [], body = [],
                      original = ''const TABLE = [1,2,3];'', type = ''constant''\<rparr>]\<rparr>]"
      "\<lparr>key = ''secret'',
         chunks = [''chunk_1'' \<mapsto> \<lparr>name = Some ''foo'', params = ''x'', body = ''return x*2;'',
                      original = ''function foo(x){ return x*2; }'', type = ''decl''\<rparr>,
                   ''chunk_2'' \<mapsto> \<lparr>name = Some ''TABLE'', params = [], body = [],
                      original = ''const TABLE = [1,2,3];'', type = ''constant''\<rparr>]\<rparr>"
      "''chunk_2''"
      "\<lparr>name = Some ''TABLE'', params = [], body = [],
        original = ''const TABLE = [1,2,3];'', type = ''constant''\<rparr>"]
  by (simp add: getProject_def getChunk_def name_json_def)

text \<open>
  C3, as the code has it. No project id that is mapped ever becomes unmapped, whatever
  the operations (\<^verbatim>\<open>createProject\<close>, \<^verbatim>\<open>putChunk\<close>, \<^verbatim>\<open>getProject\<close>,
  \<^verbatim>\<open>getChunk\<close>). As long as no \<^verbatim>\<open>createProject\<close> names a project id that is already
  mapped and no \<^verbatim>\<open>putChunk\<close> names a chunk id that is already mapped in its project,
  every project keeps its key and every chunk stays mapped to the record it was stored
  with.
\<close>

theorem registry_grows_monotonically:
  assumes "getProject pid store = Some p"
  shows "getProject pid (run_ops xs store) \<noteq> None
       \<and> (fresh_ops xs store \<longrightarrow>
            (\<exists>p'. getProject pid (run_ops xs store) = Some p' \<and> key p' = key p \<and>
                  (\<forall>cid c. getChunk pid cid store = Some c \<longrightarrow>
                     getChunk pid cid (run_ops xs store) = Some c)))"
proof (intro conjI impI)
  from assms have "store pid \<noteq> None"
    by (simp add: getProject_def)
  then show "getProject pid (run_ops xs store) \<noteq> None"
    unfolding getProject_def by (rule run_ops_keeps_project)
next
  assume "fresh_ops xs store"
  moreover from assms have "store pid = Some p"
    by (simp add: getProject_def)
  ultimately obtain p' where "run_ops xs store pid = Some p'" "key p' = key p"
    "\<forall>cid c. chunks p cid = Some c \<longrightarrow> chunks p' cid = Some c"
    using run_ops_fresh_keeps by blast
  with \<open>store pid = Some p\<close>
  show "\<exists>p'. getProject pid (run_ops xs store) = Some p' \<and> key p' = key p \<and>
              (\<forall>cid c. getChunk pid cid store = Some c \<longrightarrow>
                 getChunk pid cid (run_ops xs store) = Some c)"
    by (simp add: getProject_def getChunk_def)
qed

theorem registry_grows_monotonically_witness:
  "getProject ''p1''
      [''p1'' \<mapsto> \<lparr>key = ''k1'', chunks = [''c1'' \<mapsto> \<lparr>name = None, params = [], body = [],
         original = ''1 + 1'', type = ''raw''\<rparr>]\<rparr>]
     = Some \<lparr>key = ''k1'', chunks = [''c1'' \<mapsto> \<lparr>name = None, params = [], body = [],
        original = ''1 + 1'', type = ''raw''\<rparr>]\<rparr>
   \<and> fresh_ops [CreateProject ''p2'' ''k2'',
                 PutChunk ''p1'' ''c2'' \<lparr>name = None, params = [], body = [],
                    original = ''2'', type = ''raw''\<rparr>,
                 GetChunk ''p1'' ''c1'']
        [''p1'' \<mapsto> \<lparr>key = ''k1'', chunks = [''c1'' \<mapsto> \<lparr>name = None, params = [], body = [],
             original = ''1 + 1'', type = ''raw''\<rparr>]\<rparr>]
   \<and> getChunk ''p1'' ''c1''
        (run_ops [CreateProject ''p2'' ''k2'',
                 PutChunk ''p1'' ''c2'' \<lparr>name = None, params = [], body = [],
                    original = ''2'', type = ''raw''\<rparr>,
                 GetChunk ''p1'' ''c1'']
        [''p1'' \<mapsto> \<lparr>key = ''k1'', chunks = [''c1'' \<mapsto> \<lparr>name = None, params = [], body = [],
             original = ''1 + 1'', type = ''raw''\<rparr>]\<rparr>])
     = Some \<lparr>name = None, params = [], body = [], original = ''1 + 1'', type = ''raw''\<rparr>"
  (is "getProject ''p1'' ?S = Some ?P \<and> fresh_ops ?X ?S \<and> ?G")
proof -
  have a: "getProject ''p1'' ?S = Some ?P"
    by (simp add: getProject_def)
  have b: "fresh_ops ?X ?S"
    by (simp add: createProject_def putChunk_def getChunk_def)
  have c: "getChunk ''p1'' ''c1'' ?S
             = Some \<lparr>name = None, params = [], body = [], original = ''1 + 1'', type = ''raw''\<rparr>"
    by (simp add: getChunk_def)
  from registry_grows_monotonically [OF a, of ?X] b c have ?G
    by blast
  with a b show ?thesis
    by blast
qed

text \<open>
  C3 as written fails: a second \<^verbatim>\<open>createProject\<close> for a mapped id replaces the
  project, and the chunk stored under it is gone.
\<close>

theorem registry_record_lost_counterexample:
  "getChunk ''p1'' ''c1''
      (run_ops [CreateProject ''p1'' ''k1'',
                PutChunk ''p1'' ''c1'' \<lparr>name = None, params = [], body = [],
                   original = ''1 + 1'', type = ''raw''\<rparr>] Map.empty)
     = Some \<lparr>name = None, params = [], body = [], original = ''1 + 1'', type = ''raw''\<rparr>
   \<and> getChunk ''p1'' ''c1''
      (run_ops [CreateProject ''p1'' ''k1'',
                PutChunk ''p1'' ''c1'' \<lparr>name = None, params = [], body = [],
                   original = ''1 + 1'', type = ''raw''\<rparr>,
                CreateProject ''p1'' ''k2''] Map.empty)
     = None
   \<and> map_option key (getProject ''p1''
      (run_ops [CreateProject ''p1'' ''k1'',
                PutChunk ''p1'' ''c1'' \<lparr>name = None, params = [], body = [],
                   original = ''1 + 1'', type = ''raw''\<rparr>,
                CreateProject ''p1'' ''k2''] Map.empty))
     = Some ''k2''"
  by (simp add: run_ops_def createProject_def putChunk_def getChunk_def getProject_def)

text \<open>
  C4, as the code has it. Every \<^verbatim>\<open>init\<close> call stores the options and resolves the
  readiness handle first. Then the requests queued before initialization are flushed in
  first-in-first-out order: each queued function is called exactly once and, unless its
  chunk is cached, sends its fetch to the URL built from the new options; nothing else
  happens in between, and no readiness signal. Then the readiness notification is
  broadcast, and then the state snapshot is published. All of it happens inside
  \<^verbatim>\<open>init\<close>, which leaves the queue empty, the loader initialized and the cache as it
  was.
\<close>

theorem init_signal_order:
  "\<exists>mid. trace (init h opts l)
            = trace l @ [ReadyResolved] @ mid @ [ReadyEventDispatched, StatePublished]
        \<and> mid = concat (map (\<lambda>c. WaiterCalled c #
                   (case cache l c of
                      None \<Rightarrow> [FetchIssued (opt_baseUrl opts @ ''/api/fetch/''
                                 @ opt_projectId opts @ ''/'' @ c @ ''?key=''
                                 @ encodeURIComponent h (opt_key opts))]
                    | Some fn \<Rightarrow> [])) (waiters l))
        \<and> flushed mid = waiters l \<and> signals mid = []
        \<and> waiters (init h opts l) = [] \<and> initialized (init h opts l)
        \<and> ready (init h opts l) \<and> published (init h opts l)
        \<and> baseUrl (init h opts l) = opt_baseUrl opts
        \<and> projectId (init h opts l) = opt_projectId opts
        \<and> sdk_key (init h opts l) = opt_key opts
        \<and> cache (init h opts l) = cache l"
proof -
  define l2 where "l2 = (emit ReadyResolved
      (l\<lparr>baseUrl := opt_baseUrl opts, projectId := opt_projectId opts,
         sdk_key := opt_key opts, initialized := True, ready := True\<rparr>))\<lparr>waiters := []\<rparr>"
  define l3 where "l3 = foldl (run_waiter h) l2 (waiters l)"
  define mid where "mid = concat (map (\<lambda>c. WaiterCalled c #
                   (case cache l c of
                      None \<Rightarrow> [FetchIssued (opt_baseUrl opts @ ''/api/fetch/''
                                 @ opt_projectId opts @ ''/'' @ c @ ''?key=''
                                 @ encodeURIComponent h (opt_key opts))]
                    | Some fn \<Rightarrow> [])) (waiters l))"
  have i: "init h opts l = emit StatePublished ((emit ReadyEventDispatched l3)\<lparr>published := True\<rparr>)"
    by (simp add: init_def Let_def l3_def l2_def emit_def)
  have t2: "trace l2 = trace l @ [ReadyResolved]"
    by (simp add: l2_def emit_def)
  have c2: "cache l2 = cache l" and u2: "chunk_url h c l2 = opt_baseUrl opts @ ''/api/fetch/''
                                 @ opt_projectId opts @ ''/'' @ c @ ''?key=''
                                 @ encodeURIComponent h (opt_key opts)" for c
    by (simp_all add: l2_def emit_def chunk_url_def)
  have t3: "trace l3 = trace l2 @ mid"
    unfolding l3_def mid_def by (simp add: flush_exact c2 u2 cong: option.case_cong)
  obtain m' where m': "trace l3 = trace l2 @ m'" "flushed m' = waiters l" "signals m' = []"
    unfolding l3_def using flush_trace by blast
  with t3 have fs: "flushed mid = waiters l" "signals mid = []"
    by simp_all
  have f: "waiters l3 = []" "initialized l3" "ready l3"
    by (simp_all add: l3_def flush_fields l2_def emit_def)
  have g: "baseUrl l3 = opt_baseUrl opts" "projectId l3 = opt_projectId opts"
    "sdk_key l3 = opt_key opts" "cache l3 = cache l"
    by (simp_all add: l3_def flush_state l2_def emit_def)
  from i t3 t2 f g have "trace (init h opts l)
            = trace l @ [ReadyResolved] @ mid @ [ReadyEventDispatched, StatePublished]
        \<and> waiters (init h opts l) = [] \<and> initialized (init h opts l)
        \<and> ready (init h opts l) \<and> published (init h opts l)
        \<and> baseUrl (init h opts l) = opt_baseUrl opts
        \<and> projectId (init h opts l) = opt_projectId opts
        \<and> sdk_key (init h opts l) = opt_key opts
        \<and> cache (init h opts l) = cache l"
    by (simp add: emit_def)
  with fs mid_def show ?thesis by blast
qed

text \<open>
  C4 as written fails: with two requests queued, both are flushed, and their fetches are
  sent, before the broadcast and before the snapshot is published. Only the resolution
  of the readiness handle comes before the flush.
\<close>

theorem flush_before_broadcast_counterexample:
  "waiters (loads sample_host [''c1'', ''c2''] new_loader) = [''c1'', ''c2'']
   \<and> trace (init sample_host sample_options (loads sample_host [''c1'', ''c2''] new_loader))
     = [ReadyResolved,
        WaiterCalled ''c1'', FetchIssued ''http://h/api/fetch/p1/c1?key=k1'',
        WaiterCalled ''c2'', FetchIssued ''http://h/api/fetch/p1/c2?key=k1'',
        ReadyEventDispatched, StatePublished]"
  by code_simp

text \<open>
  C5. Let an initialized loader load a chunk that is not cached, and let the load succeed.
  If the response's kind is \<^verbatim>\<open>function\<close>, the callable is cached: a second load
  returns the same callable and leaves the loader as it is, so that the two loads sent
  exactly one request, and the entry stays in the cache through any further loads.
  If the kind is anything else, nothing is cached, and a second load sends a second
  request to the same URL.
\<close>

theorem cache_asymmetry:
  assumes "initialized l" and "cache l cid = None"
    and "next_payload h cid l = Some d"
    and "load h cid l = (Settled (Inr fn), l1)"
  shows "(pkind d = ''function'' \<longrightarrow>
            load h cid l1 = (Settled (Inr fn), l1)
            \<and> fetches (trace l1) = fetches (trace l) @ [chunk_url h cid l]
            \<and> cache (loads h cids l1) cid = Some fn)
       \<and> (pkind d \<noteq> ''function'' \<longrightarrow>
            cache l1 cid = None
            \<and> fetches (trace l1) = fetches (trace l) @ [chunk_url h cid l]
            \<and> fetches (trace (snd (load h cid l1)))
                = fetches (trace l) @ [chunk_url h cid l, chunk_url h cid l])"
proof -
  let ?u = "chunk_url h cid l"
  let ?l' = "emit (FetchIssued ?u) l"
  from assms(3) obtain r where r: "fetch h (length (fetches (trace l))) ?u = Inr r" "ok r"
    "json_body r = Inr d"
    by (auto simp: next_payload_def split: sum.splits if_splits)
  from assms(1,2,4) r(1) have res: "loadImpl_resume h cid (Inr r) ?l' = (Inr fn, l1)"
    by (simp add: load_def loadImpl_def loadImpl_begin_def split: prod.splits)
  have tr: "trace l1 = trace l @ [FetchIssued ?u]"
    using resume_trace [of h cid "Inr r" ?l'] res by (simp add: emit_def)
  then have fe: "fetches (trace l1) = fetches (trace l) @ [?u]"
    by (simp add: fetches_def)
  show ?thesis
  proof (intro conjI impI)
    assume k: "pkind d = ''function''"
    with res r have c1: "cache l1 cid = Some fn" and i1: "initialized l1 = initialized l"
      by (auto simp: loadImpl_resume_def emit_def split: sum.splits)
    with assms(1) show "load h cid l1 = (Settled (Inr fn), l1)"
      by (simp add: load_def loadImpl_def loadImpl_begin_def)
    show "fetches (trace l1) = fetches (trace l) @ [?u]" by (rule fe)
    from c1 show "cache (loads h cids l1) cid = Some fn" by (rule loads_keeps_cache)
  next
    assume k: "pkind d \<noteq> ''function''"
    with res r have eq: "l1 = ?l'"
      by (auto simp: loadImpl_resume_def split: sum.splits)
    with assms(2) show c1: "cache l1 cid = None"
      by (simp add: emit_def)
    show "fetches (trace l1) = fetches (trace l) @ [?u]" by (rule fe)
    from eq have u1: "chunk_url h cid l1 = ?u" and i1: "initialized l1"
      using assms(1) by (simp_all add: chunk_url_def emit_def)
    have "trace (snd (load h cid l1)) = trace l1 @ [FetchIssued ?u]"
      using loadImpl_trace_miss [OF c1, of h] i1 u1 by (simp add: load_snd)
    with tr show "fetches (trace (snd (load h cid l1))) = fetches (trace l) @ [?u, ?u]"
      by (simp add: fetches_def)
  qed
qed

theorem cache_asymmetry_witness:
  "initialized (init sample_host sample_options new_loader)
   \<and> cache (init sample_host sample_options new_loader) ''fn1'' = None
   \<and> next_payload sample_host ''fn1'' (init sample_host sample_options new_loader)
       = Some \<lparr>pkind = ''function'', pcode = ''(x) => { return x*2; }''\<rparr>
   \<and> fst (load sample_host ''fn1'' (init sample_host sample_options new_loader))
       = Settled (Inr ''(x) => { return x*2; }'')
   \<and> fst (load sample_host ''fn1''
          (snd (load sample_host ''fn1'' (init sample_host sample_options new_loader))))
       = Settled (Inr ''(x) => { return x*2; }'')
   \<and> fetches (trace (snd (load sample_host ''fn1''
          (snd (load sample_host ''fn1'' (init sample_host sample_options new_loader))))))
       = [''http://h/api/fetch/p1/fn1?key=k1'']
   \<and> next_payload sample_host ''tbl'' (init sample_host sample_options new_loader)
       = Some \<lparr>pkind = ''raw'', pcode = ''const TABLE = [1,2,3];''\<rparr>
   \<and> fst (load sample_host ''tbl'' (init sample_host sample_options new_loader))
       = Settled (Inr ''const TABLE = [1,2,3];'')
   \<and> fetches (trace (snd (load sample_host ''tbl''
          (snd (load sample_host ''tbl'' (init sample_host sample_options new_loader))))))
       = [''http://h/api/fetch/p1/tbl?key=k1'', ''http://h/api/fetch/p1/tbl?key=k1'']"
  (is "initialized ?L \<and> ?B \<and> ?C \<and> ?D \<and> ?E \<and> ?F \<and> ?G \<and> ?H \<and> ?I")
proof -
  let ?h = sample_host
  have a: "initialized ?L" by code_simp
  have b: ?B by code_simp
  have c: ?C by code_simp
  have d: ?D by code_simp
  have g: ?G by code_simp
  have h: ?H by code_simp
  have b': "cache ?L ''tbl'' = None" by code_simp
  have f0: "fetches (trace ?L) = []" by code_simp
  have u1: "chunk_url ?h ''fn1'' ?L = ''http://h/api/fetch/p1/fn1?key=k1''" by code_simp
  have u2: "chunk_url ?h ''tbl'' ?L = ''http://h/api/fetch/p1/tbl?key=k1''" by code_simp
  from d have d': "load ?h ''fn1'' ?L
      = (Settled (Inr ''(x) => { return x*2; }''), snd (load ?h ''fn1'' ?L))"
    by (metis prod.collapse)
  from h have h': "load ?h ''tbl'' ?L
      = (Settled (Inr ''const TABLE = [1,2,3];''), snd (load ?h ''tbl'' ?L))"
    by (metis prod.collapse)
  from cache_asymmetry [OF a b c d', of "[]"]
  have "load ?h ''fn1'' (snd (load ?h ''fn1'' ?L))
          = (Settled (Inr ''(x) => { return x*2; }''), snd (load ?h ''fn1'' ?L))"
    and "fetches (trace (snd (load ?h ''fn1'' ?L)))
          = fetches (trace ?L) @ [chunk_url ?h ''fn1'' ?L]"
    by simp_all
  then have e: ?E and f: ?F
    by (simp_all only: f0 u1 fst_conv snd_conv append_Nil)
  from cache_asymmetry [OF a b' g h', of "[]"]
  have "fetches (trace (snd (load ?h ''tbl'' (snd (load ?h ''tbl'' ?L)))))
          = fetches (trace ?L) @ [chunk_url ?h ''tbl'' ?L, chunk_url ?h ''tbl'' ?L]"
    by simp
  then have i: ?I
    by (simp only: f0 u2 append_Nil)
  from a b c d e f g h i show ?thesis
    by blast
qed

text \<open>
  C6, as the code has it. Let a start marker occur at index \<open>s\<close> of the text, and let no
  end marker begin at index \<open>s - 17\<close> or later: none after the start marker, and none
  that overlaps its first character. Then scanning ends without error, and the output is
  the scanner's output for the text before \<open>s\<close>, followed by the rest of the text from
  \<open>s\<close> on, the dangling start marker included, unchanged; the chunks are those of the
  text before \<open>s\<close>.
\<close>

theorem unmatched_marker_degrade:
  assumes "indexOf content CM_START s = Some s"
    and "indexOf content CM_END (s - 17) = None"
  shows "\<exists>out cs. transformFile ids path (take s content) = Inr (out, cs) \<and>
                  transformFile ids path content = Inr (out @ drop s content, cs)"
proof -
  from assms(1) have S: "occurs_at CM_START content s"
    by (simp add: indexOf_Some_iff markers_nonempty)
  have E: "\<forall>e. occurs_at CM_END content e \<longrightarrow> e + 18 \<le> s"
  proof (intro allI impI)
    fix e assume "occurs_at CM_END content e"
    with assms(2) have "\<not> s - 17 \<le> e"
      by (auto simp: indexOf_None_iff markers_nonempty)
    then show "e + 18 \<le> s" by arith
  qed
  obtain out cs where p: "scan ids (take s content) 0 [] [] 0 = Inr (out, cs)"
    using scan_total by blast
  with scan_prefix [OF S E, of 0 ids "[]" "[]" 0]
  have "scan ids content 0 [] [] 0 = Inr (out @ drop s content, cs)"
    by simp
  with p show ?thesis
    by (simp add: transformFile_scan)
qed

theorem unmatched_marker_degrade_witness:
  "indexOf ''a/* CODEMASK_START */function f(x){ return x; }/* CODEMASK_END */b/* CODEMASK_START */c'' CM_START 66 = Some 66
   \<and> indexOf ''a/* CODEMASK_START */function f(x){ return x; }/* CODEMASK_END */b/* CODEMASK_START */c'' CM_END (66 - 17) = None
   \<and> transformFile sample_ids ''app.js'' (take 66 ''a/* CODEMASK_START */function f(x){ return x; }/* CODEMASK_END */b/* CODEMASK_START */c'')
     = Inr (''a'' @ stub_decl ''chunk_00000000''
              \<lparr>name = Some ''f'', params = ''x'', body = ''return x;'',
               original = ''function f(x){ return x; }'', kind = ''decl''\<rparr> @ ''b'',
            [\<lparr>name = Some ''f'', params = ''x'', body = ''return x;'',
              original = ''function f(x){ return x; }'', type = ''decl'',
              chunkId = ''chunk_00000000''\<rparr>])
   \<and> transformFile sample_ids ''app.js'' ''a/* CODEMASK_START */function f(x){ return x; }/* CODEMASK_END */b/* CODEMASK_START */c''
     = Inr ((''a'' @ stub_decl ''chunk_00000000''
              \<lparr>name = Some ''f'', params = ''x'', body = ''return x;'',
               original = ''function f(x){ return x; }'', kind = ''decl''\<rparr> @ ''b'')
              @ drop 66 ''a/* CODEMASK_START */function f(x){ return x; }/* CODEMASK_END */b/* CODEMASK_START */c'',
            [\<lparr>name = Some ''f'', params = ''x'', body = ''return x;'',
              original = ''function f(x){ return x; }'', type = ''decl'',
              chunkId = ''chunk_00000000''\<rparr>])"
  (is "?A \<and> ?B \<and> transformFile _ _ (take 66 ?C) = Inr (?out, ?cs) \<and> ?D")
proof -
  have a: ?A
    by code_simp
  have b: ?B
    by code_simp
  have c: "transformFile sample_ids ''app.js'' (take 66 ?C) = Inr (?out, ?cs)"
    by code_simp
  from unmatched_marker_degrade [OF a b, of sample_ids "''app.js''"]
  obtain out cs where "transformFile sample_ids ''app.js'' (take 66 ?C) = Inr (out, cs)"
    and d: "transformFile sample_ids ''app.js'' ?C = Inr (out @ drop 66 ?C, cs)"
    by blast
  with c have "out = ?out" "cs = ?cs"
    by simp_all
  with d have ?D
    by (simp only:)
  with a b c show ?thesis
    by blast
qed

text \<open>
  C6 as written fails when an end marker overlaps the last start marker: the scanner
  resumes after the end marker, one character into the start marker, and the output
  does not hold the dangling start marker whole.
\<close>

theorem unmatched_marker_overlap_counterexample:
  "indexOf ''/* CODEMASK_START */x/* CODEMASK_END */* CODEMASK_START */y'' CM_START 38 = Some 38
   \<and> indexOf ''/* CODEMASK_START */x/* CODEMASK_END */* CODEMASK_START */y'' CM_START 39 = None
   \<and> indexOf ''/* CODEMASK_START */x/* CODEMASK_END */* CODEMASK_START */y'' CM_END 38 = None
   \<and> drop 38 ''/* CODEMASK_START */x/* CODEMASK_END */* CODEMASK_START */y'' = ''/* CODEMASK_START */y''
   \<and> transformFile sample_ids ''app.js'' ''/* CODEMASK_START */x/* CODEMASK_END */* CODEMASK_START */y''
      = Inr (stub_unknown ''chunk_00000000''
               \<lparr>name = None, params = [], body = [], original = ''x'', kind = ''unknown''\<rparr>
             @ ''* CODEMASK_START */y'',
            [\<lparr>name = None, params = [], body = [], original = ''x'', type = ''raw'',
              chunkId = ''chunk_00000000''\<rparr>])
   \<and> \<not> suffix ''/* CODEMASK_START */y''
        (stub_unknown ''chunk_00000000''
               \<lparr>name = None, params = [], body = [], original = ''x'', kind = ''unknown''\<rparr>
             @ ''* CODEMASK_START */y'')"
  by code_simp

text \<open>
  C7. A text in which the start marker does not occur comes back exactly as it is, with
  no chunk.
\<close>

theorem no_marker_identity:
  assumes "\<not> sublist CM_START content"
  shows "transformFile ids path content = Inr (content, [])"
  using assms by (simp add: transformFile_def includes_str_iff)

theorem no_marker_identity_witness:
  "\<not> sublist CM_START ''let x = 1; /* CODEMASK_END */''
   \<and> transformFile sample_ids ''app.js'' ''let x = 1; /* CODEMASK_END */''
     = Inr (''let x = 1; /* CODEMASK_END */'', [])"
proof -
  have a: "\<not> sublist CM_START ''let x = 1; /* CODEMASK_END */''"
    by code_simp
  from no_marker_identity [OF a, of sample_ids "''app.js''"] a show ?thesis
    by blast
qed

text \<open>
  C8. \<^verbatim>\<open>function add(a,b){ return a+b; }\<close> is classified as a declaration with name
  \<^verbatim>\<open>add\<close>, parameters \<^verbatim>\<open>a,b\<close>, body \<^verbatim>\<open>return a+b;\<close> and the trimmed fragment as
  original text. In general, whenever the declaration pattern matches the trimmed
  fragment, the result is the declaration built from that match: the later patterns are
  not consulted.
\<close>

theorem decl_pattern_first:
  "analyze ''function add(a,b){ return a+b; }''
     = Inr \<lparr>name = Some ''add'', params = ''a,b'', body = ''return a+b;'',
            original = ''function add(a,b){ return a+b; }'', kind = ''decl''\<rparr>
   \<and> (re_match decl_re (js_trim snip) = Some m \<longrightarrow>
        (\<exists>n. group m 1 = Some n \<and>
           analyze snip
             = Inr \<lparr>name = Some (js_trim n), params = trim_group_or_empty m 2,
                    body = trim_group_or_empty m 3, original = js_trim snip,
                    kind = ''decl''\<rparr>))"
proof (intro conjI impI)
  show "analyze ''function add(a,b){ return a+b; }''
     = Inr \<lparr>name = Some ''add'', params = ''a,b'', body = ''return a+b;'',
            original = ''function add(a,b){ return a+b; }'', kind = ''decl''\<rparr>"
    by code_simp
next
  assume h: "re_match decl_re (js_trim snip) = Some m"
  from re_match_binds [OF h one_binds(1)] obtain n where n: "group m 1 = Some n"
    by blast
  with h have "analyze snip
             = Inr \<lparr>name = Some (js_trim n), params = trim_group_or_empty m 2,
                    body = trim_group_or_empty m 3, original = js_trim snip,
                    kind = ''decl''\<rparr>"
    by (simp add: analyze_def trim_group_def)
  with n show "\<exists>n. group m 1 = Some n \<and>
           analyze snip
             = Inr \<lparr>name = Some (js_trim n), params = trim_group_or_empty m 2,
                    body = trim_group_or_empty m 3, original = js_trim snip,
                    kind = ''decl''\<rparr>"
    by blast
qed

theorem decl_pattern_first_witness:
  "re_match decl_re (js_trim ''  async function go(n){ run(n); }  '')
     = Some [(3, '' run(n); ''), (2, ''n''), (1, ''go'')]
   \<and> analyze ''  async function go(n){ run(n); }  ''
     = Inr \<lparr>name = Some ''go'', params = ''n'', body = ''run(n);'',
            original = ''async function go(n){ run(n); }'', kind = ''decl''\<rparr>"
  (is "re_match decl_re (js_trim ?S) = Some ?M \<and> _")
proof -
  have h: "re_match decl_re (js_trim ?S) = Some ?M"
    by code_simp
  from decl_pattern_first [of ?S ?M] h
  obtain n where n: "group ?M 1 = Some n"
    and r: "analyze ?S
             = Inr \<lparr>name = Some (js_trim n), params = trim_group_or_empty ?M 2,
                    body = trim_group_or_empty ?M 3, original = js_trim ?S,
                    kind = ''decl''\<rparr>"
    by blast
  have "group ?M 1 = Some ''go''"
    by code_simp
  with n have "n = ''go''"
    by simp
  moreover have "js_trim ''go'' = ''go''"
    by code_simp
  moreover have "trim_group_or_empty ?M 2 = ''n''"
    by code_simp
  moreover have "trim_group_or_empty ?M 3 = ''run(n);''"
    by code_simp
  moreover have "js_trim ?S = ''async function go(n){ run(n); }''"
    by code_simp
  ultimately have "analyze ?S
     = Inr \<lparr>name = Some ''go'', params = ''n'', body = ''run(n);'',
            original = ''async function go(n){ run(n); }'', kind = ''decl''\<rparr>"
    using r by (simp only:)
  with h show ?thesis
    by blast
qed

text \<open>
  C9. \<^verbatim>\<open>const TABLE = [1,2,3];\<close> is classified as a constant with name \<^verbatim>\<open>TABLE\<close>,
  empty parameters and body, and the fragment itself as original text; white space
  around the fragment is trimmed away and nothing else changes. The value text
  \<^verbatim>\<open>[1,2,3]\<close> is captured by the pattern and appears nowhere in the result but inside
  the original text.
\<close>

theorem constant_preserved:
  "analyze ''const TABLE = [1,2,3];''
     = Inr \<lparr>name = Some ''TABLE'', params = [], body = [],
            original = ''const TABLE = [1,2,3];'', kind = ''constant''\<rparr>
   \<and> analyze (''  const TABLE = [1,2,3];'' @ [CHR 0x0A])
     = Inr \<lparr>name = Some ''TABLE'', params = [], body = [],
            original = ''const TABLE = [1,2,3];'', kind = ''constant''\<rparr>
   \<and> re_match constant_re ''const TABLE = [1,2,3];''
     = Some [(2, ''[1,2,3]''), (1, ''TABLE'')]"
  by code_simp

text \<open>
  C10. \<^verbatim>\<open>createProject\<close> has no failing branch. In every registry state, also one
  that maps the id already, the id is afterwards mapped to a project with the supplied
  key and an empty chunk table: no chunk id can be fetched under it, whatever was stored
  there before, and the other projects are as they were.
\<close>

theorem createProject_replaces:
  "getProject pid (createProject pid k store) = Some \<lparr>key = k, chunks = Map.empty\<rparr>
   \<and> getChunk pid cid (createProject pid k store) = None
   \<and> (other \<noteq> pid \<longrightarrow> getProject other (createProject pid k store) = getProject other store)"
  by (simp add: getProject_def getChunk_def createProject_def)

theorem createProject_replaces_witness:
  "getChunk ''p1'' ''c1''
      [''p1'' \<mapsto> \<lparr>key = ''k1'', chunks = [''c1'' \<mapsto> \<lparr>name = None, params = [], body = [],
          original = ''1 + 1'', type = ''raw''\<rparr>]\<rparr>,
       ''p2'' \<mapsto> \<lparr>key = ''k2'', chunks = Map.empty\<rparr>]
     = Some \<lparr>name = None, params = [], body = [], original = ''1 + 1'', type = ''raw''\<rparr>
   \<and> ''p2'' \<noteq> ''p1''
   \<and> getProject ''p1'' (createProject ''p1'' ''k9''
      [''p1'' \<mapsto> \<lparr>key = ''k1'', chunks = [''c1'' \<mapsto> \<lparr>name = None, params = [], body = [],
          original = ''1 + 1'', type = ''raw''\<rparr>]\<rparr>,
       ''p2'' \<mapsto> \<lparr>key = ''k2'', chunks = Map.empty\<rparr>])
     = Some \<lparr>key = ''k9'', chunks = Map.empty\<rparr>
   \<and> getChunk ''p1'' ''c1'' (createProject ''p1'' ''k9''
      [''p1'' \<mapsto> \<lparr>key = ''k1'', chunks = [''c1'' \<mapsto> \<lparr>name = None, params = [], body = [],
          original = ''1 + 1'', type = ''raw''\<rparr>]\<rparr>,
       ''p2'' \<mapsto> \<lparr>key = ''k2'', chunks = Map.empty\<rparr>])
     = None
   \<and> getProject ''p2'' (createProject ''p1'' ''k9''
      [''p1'' \<mapsto> \<lparr>key = ''k1'', chunks = [''c1'' \<mapsto> \<lparr>name = None, params = [], body = [],
          original = ''1 + 1'', type = ''raw''\<rparr>]\<rparr>,
       ''p2'' \<mapsto> \<lparr>key = ''k2'', chunks = Map.empty\<rparr>])
     = Some \<lparr>key = ''k2'', chunks = Map.empty\<rparr>"
  (is "getChunk ''p1'' ''c1'' ?S = Some ?C \<and> _")
proof -
  have a: "getChunk ''p1'' ''c1'' ?S = Some ?C"
    by (simp add: getChunk_def)
  have b: "''p2'' \<noteq> ''p1''"
    by simp
  have c: "getProject ''p2'' ?S = Some \<lparr>key = ''k2'', chunks = Map.empty\<rparr>"
    by (simp add: getProject_def)
  from createProject_replaces [of "''p1''" "''k9''" ?S "''c1''" "''p2''"] a b c
  show ?thesis
    by simp
qed

end
